theory Spec2Isabelle
  imports Complex_Main "HOL-Library.Product_Lexorder"
begin

section \<open>Data model of \<open>images.py\<close>\<close>

text \<open>
  The element types the module knows about (the \<open>IM_*\<close> constants of the source).
  \<open>Other_dtype\<close> stands for any numpy element type that the module does not name
  (complex, half precision, ...). The little-endian constants coincide with the native
  types of a little-endian 64-bit platform, so the index type \<open>intp\<close> that
  \<open>searchsorted\<close> returns is \<open>IM_LONG\<close>.
\<close>

datatype dtype =
    IM_BIT | IM_BYTE | IM_SBYTE
  | IM_SHORT | IM_SHORT_BE | IM_USHORT | IM_USHORT_BE
  | IM_INT | IM_INT_BE | IM_UINT | IM_UINT_BE
  | IM_LONG | IM_LONG_BE | IM_ULONG | IM_ULONG_BE
  | IM_RGB24 | IM_RGB24_STRUCT | IM_FLOAT | IM_DOUBLE
  | Other_dtype

text \<open>
  A numpy array: element type, shape and the elements in row-major order. Every scalar
  is held by its numeric value, a rational: arrays of an integer type hold integral
  values, boolean arrays hold 0 (False) and 1 (True), float arrays hold finite floats
  (NaN and the infinities are outside the model). An array of \<open>IM_RGB24_STRUCT\<close> holds
  three consecutive byte values per element, which is its memory layout and what makes
  \<open>view\<close> between the packed and the structured RGB form the identity on the data.
\<close>

record ndarray =
  dtype :: dtype
  shape :: "nat list"
  data :: "rat list"

datatype error =
    ValueError string
  | OverflowError
  | IndexError
  | KeyError

definition ndim :: "ndarray \<Rightarrow> nat" where
  "ndim im = length (shape im)"

text \<open>The tables \<open>_signed2unsigned\<close>, \<open>_unsigned_types\<close> and \<open>_integer_types\<close>.\<close>

fun signed2unsigned :: "dtype \<Rightarrow> dtype option" where
  "signed2unsigned IM_SBYTE = Some IM_BYTE"
| "signed2unsigned IM_SHORT = Some IM_USHORT"
| "signed2unsigned IM_SHORT_BE = Some IM_USHORT_BE"
| "signed2unsigned IM_INT = Some IM_UINT"
| "signed2unsigned IM_INT_BE = Some IM_UINT_BE"
| "signed2unsigned IM_LONG = Some IM_ULONG"
| "signed2unsigned IM_LONG_BE = Some IM_ULONG_BE"
| "signed2unsigned _ = None"

definition unsigned_types :: "dtype list" where
  "unsigned_types = [IM_BIT, IM_BYTE, IM_USHORT, IM_UINT, IM_ULONG]"

definition integer_types :: "dtype list" where
  "integer_types = [IM_BIT,
     IM_BYTE, IM_USHORT, IM_USHORT_BE, IM_UINT, IM_UINT_BE, IM_ULONG, IM_ULONG_BE,
     IM_SBYTE, IM_SHORT, IM_SHORT_BE, IM_INT, IM_INT_BE, IM_LONG, IM_LONG_BE]"

text \<open>
  \<open>_min_max_values\<close>: \<open>iinfo(dt).min\<close> and \<open>iinfo(dt).max\<close> for the integer types,
  \<open>(False, True)\<close> for the boolean type and the nominal \<open>(0.0, 1.0)\<close> for the floats.
  A type without an entry is a \<open>KeyError\<close> of the dictionary lookup.
\<close>

fun min_max_values :: "dtype \<Rightarrow> (rat \<times> rat) option" where
  "min_max_values IM_BIT = Some (0, 1)"
| "min_max_values IM_BYTE = Some (0, 2 ^ 8 - 1)"
| "min_max_values IM_USHORT = Some (0, 2 ^ 16 - 1)"
| "min_max_values IM_USHORT_BE = Some (0, 2 ^ 16 - 1)"
| "min_max_values IM_UINT = Some (0, 2 ^ 32 - 1)"
| "min_max_values IM_UINT_BE = Some (0, 2 ^ 32 - 1)"
| "min_max_values IM_ULONG = Some (0, 2 ^ 64 - 1)"
| "min_max_values IM_ULONG_BE = Some (0, 2 ^ 64 - 1)"
| "min_max_values IM_SBYTE = Some (- (2 ^ 7), 2 ^ 7 - 1)"
| "min_max_values IM_SHORT = Some (- (2 ^ 15), 2 ^ 15 - 1)"
| "min_max_values IM_SHORT_BE = Some (- (2 ^ 15), 2 ^ 15 - 1)"
| "min_max_values IM_INT = Some (- (2 ^ 31), 2 ^ 31 - 1)"
| "min_max_values IM_INT_BE = Some (- (2 ^ 31), 2 ^ 31 - 1)"
| "min_max_values IM_LONG = Some (- (2 ^ 63), 2 ^ 63 - 1)"
| "min_max_values IM_LONG_BE = Some (- (2 ^ 63), 2 ^ 63 - 1)"
| "min_max_values IM_FLOAT = Some (0, 1)"
| "min_max_values IM_DOUBLE = Some (0, 1)"
| "min_max_values _ = None"

text \<open>\<open>_get_min_max\<close> called on an element type: the first line of the function.\<close>

definition get_min_max_dtype :: "dtype \<Rightarrow> error + (rat \<times> rat)" where
  "get_min_max_dtype dt =
     (case min_max_values dt of None \<Rightarrow> Inl KeyError | Some mm \<Rightarrow> Inr mm)"

text \<open>
  \<open>_get_min_max\<close> called on an array. For a float array the bounds are the observed
  minimum and maximum when they leave [0, 1] (numpy's \<open>min\<close> of an empty array raises
  a \<open>ValueError\<close>), the table entry otherwise.
\<close>

definition get_min_max :: "ndarray \<Rightarrow> error + (rat \<times> rat)" where
  "get_min_max im =
     (if dtype im = IM_FLOAT \<or> dtype im = IM_DOUBLE then
        (if data im = [] then Inl (ValueError ''zero-size array'')
         else let mn = Min (set (data im)); mx = Max (set (data im))
              in if mn < 0 \<or> mx > 1 then Inr (mn, mx) else get_min_max_dtype (dtype im))
      else get_min_max_dtype (dtype im))"

text \<open>The classification predicates.\<close>

definition is_rgb24 :: "ndarray \<Rightarrow> bool" where
  "is_rgb24 im \<longleftrightarrow>
     ndim im = 2 \<and> dtype im = IM_RGB24_STRUCT
     \<or> ndim im = 3 \<and> shape im ! 2 = 3 \<and> dtype im = IM_BYTE"

definition is_image_besides_rgb24 :: "ndarray \<Rightarrow> bool" where
  "is_image_besides_rgb24 im \<longleftrightarrow>
     ndim im = 2 \<and> (dtype im \<in> set integer_types \<or> dtype im = IM_FLOAT \<or> dtype im = IM_DOUBLE)"

definition is_image :: "ndarray \<Rightarrow> bool" where
  "is_image im \<longleftrightarrow> is_rgb24 im \<or> is_image_besides_rgb24 im"

section \<open>The numpy primitives used by the module\<close>

text \<open>
  \<open>astype\<close>: the value conversion of one element to an element type. Conversion to
  the boolean type tests for non-zero; conversion to a \<open>w\<close>-bit unsigned type truncates
  towards zero and keeps the low \<open>w\<close> bits; conversion to a \<open>w\<close>-bit signed type
  keeps the low \<open>w\<close> bits in two's complement. Conversion to a float type keeps the
  value (its rounding is outside the model; the module never converts to a float type
  through \<open>astype\<close>).
\<close>

definition trunc :: "rat \<Rightarrow> int" where
  "trunc v = (if 0 \<le> v then \<lfloor>v\<rfloor> else \<lceil>v\<rceil>)"

fun bits :: "dtype \<Rightarrow> nat" where
  "bits IM_BYTE = 8" | "bits IM_SBYTE = 8"
| "bits IM_SHORT = 16" | "bits IM_SHORT_BE = 16" | "bits IM_USHORT = 16" | "bits IM_USHORT_BE = 16"
| "bits IM_INT = 32" | "bits IM_INT_BE = 32" | "bits IM_UINT = 32" | "bits IM_UINT_BE = 32"
| "bits IM_LONG = 64" | "bits IM_LONG_BE = 64" | "bits IM_ULONG = 64" | "bits IM_ULONG_BE = 64"
| "bits IM_FLOAT = 32" | "bits IM_DOUBLE = 64"
| "bits IM_BIT = 8" | "bits IM_RGB24 = 24" | "bits IM_RGB24_STRUCT = 24"
| "bits Other_dtype = 0"

definition is_unsigned :: "dtype \<Rightarrow> bool" where
  "is_unsigned dt \<longleftrightarrow> dt \<in> {IM_BYTE, IM_USHORT, IM_USHORT_BE, IM_UINT, IM_UINT_BE, IM_ULONG, IM_ULONG_BE}"

definition is_signed :: "dtype \<Rightarrow> bool" where
  "is_signed dt \<longleftrightarrow> dt \<in> {IM_SBYTE, IM_SHORT, IM_SHORT_BE, IM_INT, IM_INT_BE, IM_LONG, IM_LONG_BE}"

definition cast :: "dtype \<Rightarrow> rat \<Rightarrow> rat" where
  "cast dt v =
     (if dt = IM_BIT then (if v \<noteq> 0 then 1 else 0)
      else if is_unsigned dt then of_int (take_bit (bits dt) (trunc v))
      else if is_signed dt then of_int (signed_take_bit (bits dt - 1) (trunc v))
      else v)"

definition astype :: "ndarray \<Rightarrow> dtype \<Rightarrow> ndarray" where
  "astype im dt = im\<lparr>dtype := dt, data := map (cast dt) (data im)\<rparr>"

text \<open>
  \<open>unique\<close> returns the sorted distinct elements of the flattened array. For a
  structured array the order is the lexicographic order of the fields.
\<close>

definition unique :: "'a::linorder list \<Rightarrow> 'a list" where
  "unique xs = sort (remdups xs)"

text \<open>
  \<open>searchsorted(a, v)\<close> with the default \<open>side='left'\<close>: the first index \<open>i\<close> with
  \<open>v \<le> a[i]\<close>, which is the number of leading elements of \<open>a\<close> below \<open>v\<close>. Applied
  to an array it gives an array of the index type, of the same shape.
\<close>

definition searchsorted :: "'a::linorder list \<Rightarrow> 'a \<Rightarrow> nat" where
  "searchsorted a v = length (takeWhile (\<lambda>x. x < v) a)"

definition searchsorted_array :: "'a::linorder list \<Rightarrow> 'a list \<Rightarrow> nat list \<Rightarrow> ndarray" where
  "searchsorted_array a vs shp =
     \<lparr>dtype = IM_LONG, shape = shp, data = map (\<lambda>v. of_nat (searchsorted a v)) vs\<rparr>"

text \<open>
  The elements of an RGB array: the byte values read three at a time.
\<close>

fun triples :: "rat list \<Rightarrow> (rat \<times> rat \<times> rat) list" where
  "triples (r # g # b # xs) = (r, g, b) # triples xs"
| "triples _ = []"

text \<open>
  \<open>im.view(dtype=IM_RGB24_STRUCT)\<close> leaves the bytes alone; on a packed byte array the
  last axis shrinks from 3 to 1. \<open>squeeze\<close> drops every axis of length 1.
\<close>

definition view_rgb24_struct :: "ndarray \<Rightarrow> ndarray" where
  "view_rgb24_struct im =
     (if dtype im = IM_RGB24_STRUCT then im
      else im\<lparr>dtype := IM_RGB24_STRUCT,
              shape := butlast (shape im) @ [last (shape im) div 3]\<rparr>)"

definition squeeze :: "ndarray \<Rightarrow> ndarray" where
  "squeeze im = im\<lparr>shape := filter (\<lambda>d. d \<noteq> 1) (shape im)\<rparr>"

text \<open>
  \<open>if values[0] != 0: values = insert(values, 0, 0)\<close>, for the zero \<open>z\<close> of the element
  type. It is only reached with a non-empty \<open>values\<close>.
\<close>

definition ensure_zero :: "'a \<Rightarrow> 'a list \<Rightarrow> 'a list" where
  "ensure_zero z values = (if hd values \<noteq> z then z # values else values)"

section \<open>Type narrowing: \<open>_conv_type\<close>\<close>

text \<open>
  The \<open>for\<close> loop over \<open>_unsigned_types\<close> as a recursion over the remaining types: the
  first type whose maximum is at least \<open>n\<close> converts the array and returns; running off
  the end of the tuple raises \<open>OverflowError\<close>.
\<close>

fun conv_type_loop :: "dtype list \<Rightarrow> ndarray \<Rightarrow> int \<Rightarrow> error + (ndarray \<times> int)" where
  "conv_type_loop [] im n = Inl OverflowError"
| "conv_type_loop (dt # dts) im n =
     (case get_min_max_dtype dt of
        Inl e \<Rightarrow> Inl e
      | Inr (mn, mx) \<Rightarrow>
          if of_int n \<le> mx then Inr (astype im dt, n) else conv_type_loop dts im n)"

definition conv_type :: "ndarray \<Rightarrow> int \<Rightarrow> error + (ndarray \<times> int)" where
  "conv_type im n = conv_type_loop unsigned_types im n"

text \<open>The maximum of an element type as the narrowing step reads it, and its size in bytes.\<close>

definition max_value :: "dtype \<Rightarrow> rat" where
  "max_value dt = (case min_max_values dt of Some (mn, mx) \<Rightarrow> mx | None \<Rightarrow> 0)"

definition itemsize :: "dtype \<Rightarrow> nat" where
  "itemsize dt = bits dt div 8"

section \<open>The Renumbering Engine: \<open>consecutively_number\<close>\<close>

text \<open>
  The branches follow the source. \<open>values[0]\<close> on the empty result of \<open>unique\<close> (an
  image without pixels) is an \<open>IndexError\<close>. The last line of the source, shared by
  the RGB and the plain branch, appears once in each.
\<close>

definition consecutively_number :: "ndarray \<Rightarrow> error + (ndarray \<times> int)" where
  "consecutively_number im =
     (if is_rgb24 im then
        (let im' = squeeze (view_rgb24_struct im);
             px = triples (data im');
             values = unique px
         in if values = [] then Inl IndexError
            else let values = ensure_zero (0, 0, 0) values
                 in conv_type (searchsorted_array values px (shape im'))
                      (int (length values) - 1))
      else if is_image_besides_rgb24 im then
        (let values = unique (data im)
         in if values = [] then Inl IndexError
            else if hd values < 0 then Inl (ValueError ''negative numbers'')
            else let values = ensure_zero 0 values
                 in if dtype im \<noteq> IM_FLOAT \<and> dtype im \<noteq> IM_DOUBLE
                       \<and> last values = of_nat (length values) - 1
                    then conv_type im (int (length values) - 1)
                    else conv_type (searchsorted_array values (data im) (shape im))
                           (int (length values) - 1))
      else Inl (ValueError ''im''))"

text \<open>
  The rank-lookup path of the plain branch on its own: the branch with the fast-path
  \<open>return\<close> removed, so that the last line of the source is always reached.
\<close>

definition rank_path :: "ndarray \<Rightarrow> error + (ndarray \<times> int)" where
  "rank_path im =
     (let values = ensure_zero 0 (unique (data im))
      in conv_type (searchsorted_array values (data im) (shape im))
           (int (length values) - 1))"

text \<open>
  The fast path of the plain branch on its own: the \<open>return\<close> of the line that tests
  for values that are consecutive already.
\<close>

definition fast_path :: "ndarray \<Rightarrow> error + (ndarray \<times> int)" where
  "fast_path im =
     (let values = ensure_zero 0 (unique (data im))
      in conv_type im (int (length values) - 1))"

text \<open>
  What the statements below say about an input: which of its pixels are zero (the
  triple (0,0,0) for an RGB image), how many distinct values it has once zero is
  counted in, and that its elements are values of its element type.
\<close>

definition zero_pixels :: "ndarray \<Rightarrow> bool list" where
  "zero_pixels im =
     (if is_rgb24 im then map (\<lambda>p. p = (0, 0, 0)) (triples (data im))
      else map (\<lambda>v. v = 0) (data im))"

definition value_count :: "ndarray \<Rightarrow> nat" where
  "value_count im =
     (if is_rgb24 im then card (insert (0, 0, 0) (set (triples (data im))))
      else card (insert 0 (set (data im))))"

definition wf_ndarray :: "ndarray \<Rightarrow> bool" where
  "wf_ndarray im \<longleftrightarrow>
     (dtype im \<in> set integer_types \<longrightarrow>
        (\<forall>v\<in>set (data im). v \<in> \<int>
           \<and> fst (the (min_max_values (dtype im))) \<le> v
           \<and> v \<le> snd (the (min_max_values (dtype im)))))
     \<and> (dtype im = IM_RGB24_STRUCT \<longrightarrow> (\<forall>v\<in>set (data im). v \<in> \<int> \<and> 0 \<le> v \<and> v \<le> 255))"

section \<open>The Connected-Component Validator: \<open>relabel\<close>\<close>

text \<open>
  \<open>scipy.ndimage.label\<close> is not part of the module: \<open>relabel\<close> takes it as a
  parameter, a function from a boolean mask to the array of component numbers and the
  number of components.
\<close>

type_synonym label_fn = "ndarray \<Rightarrow> ndarray \<times> int"

text \<open>\<open>im == i\<close>: the boolean mask of the pixels equal to \<open>i\<close>.\<close>

definition eq_mask :: "ndarray \<Rightarrow> rat \<Rightarrow> ndarray" where
  "eq_mask im i =
     \<lparr>dtype = IM_BIT, shape = shape im, data = map (\<lambda>v. if v = i then 1 else 0) (data im)\<rparr>"

text \<open>
  \<open>im[l==j] = N\<close>: the assignment converts \<open>N\<close> to the element type of \<open>im\<close>; a mask
  of another shape is an \<open>IndexError\<close>.
\<close>

definition assign_where :: "ndarray \<Rightarrow> ndarray \<Rightarrow> rat \<Rightarrow> int \<Rightarrow> error + ndarray" where
  "assign_where im l j N =
     (if shape l \<noteq> shape im \<or> length (data l) \<noteq> length (data im) then Inl IndexError
      else Inr (im\<lparr>data := map2 (\<lambda>lv v. if lv = j then cast (dtype im) (of_int N) else v)
                               (data l) (data im)\<rparr>))"

text \<open>The inner loop \<open>for j in range(2, n+1)\<close>, over the remaining values of \<open>j\<close>.\<close>

fun split_loop :: "int list \<Rightarrow> ndarray \<Rightarrow> ndarray \<Rightarrow> int \<Rightarrow> error + (ndarray \<times> int)" where
  "split_loop [] l im N = Inr (im, N)"
| "split_loop (j # js) l im N =
     (case assign_where im l (of_int j) (N + 1) of
        Inl e \<Rightarrow> Inl e
      | Inr im' \<Rightarrow> split_loop js l im' (N + 1))"

text \<open>One iteration of the outer loop, on the state \<open>(im, N, mx)\<close>.\<close>

definition relabel_body :: "label_fn \<Rightarrow> int \<Rightarrow> ndarray \<times> int \<times> rat \<Rightarrow> error + (ndarray \<times> int \<times> rat)" where
  "relabel_body label i st =
     (case st of (im, N, mx) \<Rightarrow>
        (case label (eq_mask im (of_int i)) of (l, n) \<Rightarrow>
           (case (if of_int (N + n - 1) > mx then
                    (case conv_type im (N + n - 1) of
                       Inl e \<Rightarrow> Inl e
                     | Inr (im', _) \<Rightarrow>
                         (case get_min_max im' of
                            Inl e \<Rightarrow> Inl e
                          | Inr (_, mx') \<Rightarrow> Inr (im', mx')))
                  else Inr (im, mx)) of
              Inl e \<Rightarrow> Inl e
            | Inr (im1, mx1) \<Rightarrow>
                (case split_loop [2..n] l im1 N of
                   Inl e \<Rightarrow> Inl e
                 | Inr (im2, N2) \<Rightarrow> Inr (im2, N2, mx1)))))"

text \<open>
  The outer loop \<open>for i in range(1, N+1)\<close>. Python evaluates \<open>range(1, N+1)\<close> once,
  when the loop starts: the loop runs over that list whatever happens to \<open>N\<close> in the
  body. The last argument records the values of \<open>i\<close> for which the body has run; it
  is not part of the program's state and nothing reads it.
\<close>

fun relabel_loop ::
  "label_fn \<Rightarrow> int list \<Rightarrow> ndarray \<times> int \<times> rat \<Rightarrow> int list
     \<Rightarrow> error + ((ndarray \<times> int \<times> rat) \<times> int list)" where
  "relabel_loop label [] st visited = Inr (st, visited)"
| "relabel_loop label (i # is) st visited =
     (case relabel_body label i st of
        Inl e \<Rightarrow> Inl e
      | Inr st' \<Rightarrow> relabel_loop label is st' (visited @ [i]))"

definition relabel_trace :: "label_fn \<Rightarrow> ndarray \<Rightarrow> error + ((ndarray \<times> int) \<times> int list)" where
  "relabel_trace label im =
     (case consecutively_number im of
        Inl e \<Rightarrow> Inl e
      | Inr (im0, N0) \<Rightarrow>
          (case get_min_max im0 of
             Inl e \<Rightarrow> Inl e
           | Inr (_, mx) \<Rightarrow>
               (case relabel_loop label [1..N0] (im0, N0, mx) [] of
                  Inl e \<Rightarrow> Inl e
                | Inr ((im', N', _), visited) \<Rightarrow> Inr ((im', N'), visited))))"

definition relabel :: "label_fn \<Rightarrow> ndarray \<Rightarrow> error + (ndarray \<times> int)" where
  "relabel label im = map_sum id fst (relabel_trace label im)"

text \<open>
  A connected-components primitive for images of a single row, where the 4-connected
  components of a mask are its maximal runs of set pixels, numbered from the left.
  It is what \<open>scipy.ndimage.label\<close> returns on such a mask, and is used to run
  \<open>relabel\<close> on concrete one-row images.
\<close>

fun label_runs :: "rat list \<Rightarrow> bool \<Rightarrow> int \<Rightarrow> rat list \<times> int" where
  "label_runs [] prev n = ([], n)"
| "label_runs (v # vs) prev n =
     (if v \<noteq> 0 then
        (let n' = (if prev then n else n + 1)
         in case label_runs vs True n' of (ls, m) \<Rightarrow> (of_int n' # ls, m))
      else (case label_runs vs False n of (ls, m) \<Rightarrow> (0 # ls, m)))"

definition label_row :: label_fn where
  "label_row m =
     (case label_runs (data m) False 0 of
        (ls, n) \<Rightarrow> (\<lparr>dtype = IM_INT, shape = shape m, data = ls\<rparr>, n))"

section \<open>The Histogram Matcher: \<open>histeq\<close>\<close>

text \<open>
  \<open>view\<close> between integer types of one width reinterprets each element's bit
  pattern: as an unsigned number it is the low \<open>w\<close> bits, as a signed number their
  two's complement reading. A view as the array's own type changes nothing.
\<close>

definition reinterpret :: "dtype \<Rightarrow> dtype \<Rightarrow> rat \<Rightarrow> rat" where
  "reinterpret src dst v =
     (if src = dst then v
      else if is_unsigned dst then of_int (take_bit (bits dst) \<lfloor>v\<rfloor>)
      else if is_signed dst then of_int (signed_take_bit (bits dst - 1) \<lfloor>v\<rfloor>)
      else v)"

definition view :: "ndarray \<Rightarrow> dtype \<Rightarrow> ndarray" where
  "view im dt = im\<lparr>dtype := dt, data := map (reinterpret (dtype im) dt) (data im)\<rparr>"

text \<open>
  The arithmetic of \<open>histeq\<close> (the target histogram, the source histogram, the error
  surface, the table \<open>T\<close> and the indices \<open>idx\<close>) is floating-point computation and is
  a parameter here: \<open>kern im nbins hgram\<close> stands for the elements of \<open>T[idx]\<close>
  computed from the array the histograms are taken of, or for the error that
  computation raises. The table is allocated with \<open>dtype=im.dtype\<close> and \<open>idx\<close> has the
  shape of \<open>im\<close>, which gives the element type and shape of \<open>T[idx]\<close>.
\<close>

type_synonym histeq_kernel = "ndarray \<Rightarrow> int \<Rightarrow> ndarray option \<Rightarrow> error + rat list"

definition histeq_apply :: "histeq_kernel \<Rightarrow> ndarray \<Rightarrow> int \<Rightarrow> ndarray option \<Rightarrow> error + ndarray" where
  "histeq_apply kern im nbins hgram =
     (let orig_dtype = dtype im;
          im = (case signed2unsigned (dtype im) of Some u \<Rightarrow> view im u | None \<Rightarrow> im)
      in case kern im nbins hgram of
           Inl e \<Rightarrow> Inl e
         | Inr t \<Rightarrow> Inr (view \<lparr>dtype = dtype im, shape = shape im, data = t\<rparr> orig_dtype))"

text \<open>
  The argument checks of \<open>histeq\<close>. \<open>hgram == None\<close> is read as the test whether the
  argument was given, and \<open>len(hgram)\<close> of a vector is its number of elements.
\<close>

definition histeq :: "histeq_kernel \<Rightarrow> ndarray \<Rightarrow> int option \<Rightarrow> ndarray option \<Rightarrow> error + ndarray" where
  "histeq kern im nbins hgram =
     (if \<not> is_image_besides_rgb24 im then Inl (ValueError ''Unsupported image type'')
      else case hgram of
             None \<Rightarrow> histeq_apply kern im (case nbins of None \<Rightarrow> 64 | Some b \<Rightarrow> b) None
           | Some h \<Rightarrow>
               if nbins \<noteq> None then Inl (ValueError ''Cannot use both nbins and hgram in histeq'')
               else if ndim h \<noteq> 1 then Inl (ValueError ''hgram must be a vector'')
               else histeq_apply kern im (int (length (data h))) (Some h))"

section \<open>Properties of the type narrowing\<close>

lemma conv_type_cases:
  "conv_type im n =
     (if n \<le> 1 then Inr (astype im IM_BIT, n)
      else if n \<le> 2 ^ 8 - 1 then Inr (astype im IM_BYTE, n)
      else if n \<le> 2 ^ 16 - 1 then Inr (astype im IM_USHORT, n)
      else if n \<le> 2 ^ 32 - 1 then Inr (astype im IM_UINT, n)
      else if n \<le> 2 ^ 64 - 1 then Inr (astype im IM_ULONG, n)
      else Inl OverflowError)"
proof -
  have le: "(of_int n \<le> (k :: rat)) = (n \<le> m)" if "k = of_int m" for k m
    using that by simp
  have "(of_int n \<le> (1 :: rat)) = (n \<le> 1)"
    by (rule le) simp
  moreover have "(of_int n \<le> (2 ^ 8 - 1 :: rat)) = (n \<le> 2 ^ 8 - 1)"
    by (rule le) simp
  moreover have "(of_int n \<le> (2 ^ 16 - 1 :: rat)) = (n \<le> 2 ^ 16 - 1)"
    by (rule le) simp
  moreover have "(of_int n \<le> (2 ^ 32 - 1 :: rat)) = (n \<le> 2 ^ 32 - 1)"
    by (rule le) simp
  moreover have "(of_int n \<le> (2 ^ 64 - 1 :: rat)) = (n \<le> 2 ^ 64 - 1)"
    by (rule le) simp
  ultimately show ?thesis
    by (simp only: conv_type_def unsigned_types_def get_min_max_dtype_def
          conv_type_loop.simps min_max_values.simps option.case sum.case prod.case)
qed

section \<open>Sorted tables and rank lookup\<close>

lemma strict_sorted_unique: "sorted_wrt (<) (unique xs)"
  by (simp add: unique_def strict_sorted_iff)

lemma set_unique: "set (unique xs) = set xs"
  by (simp add: unique_def)

lemma unique_eq_Nil: "unique xs = [] \<longleftrightarrow> xs = []"
  using set_unique [of xs] by (metis set_empty)

lemma hd_strict_sorted_le:
  "sorted_wrt (<) a \<Longrightarrow> v \<in> set a \<Longrightarrow> hd a \<le> (v::'a::linorder)"
  by (cases a) auto

lemma searchsorted_nth:
  assumes "sorted_wrt (<) a" and "i < length a"
  shows "searchsorted a (a ! i) = i"
proof -
  have "takeWhile (\<lambda>x. x < a ! i) a = take i a"
  proof (rule takeWhile_eq_take_P_nth)
    fix j assume "j < i" "j < length a"
    with assms show "a ! j < a ! i"
      by (simp add: sorted_wrt_nth_less)
  qed simp
  with assms show ?thesis
    by (simp add: searchsorted_def)
qed

lemma searchsorted_member:
  assumes "sorted_wrt (<) a" and "v \<in> set a"
  shows "searchsorted a v < length a \<and> a ! searchsorted a v = v"
proof -
  from assms(2) obtain i where "i < length a" "a ! i = v"
    by (auto simp: in_set_conv_nth)
  with searchsorted_nth [OF assms(1), of i] show ?thesis by auto
qed

lemma searchsorted_zero_iff:
  assumes "sorted_wrt (<) a" and "v \<in> set a"
  shows "searchsorted a v = 0 \<longleftrightarrow> v = hd a"
proof
  assume "searchsorted a v = 0"
  with searchsorted_member [OF assms] show "v = hd a"
    by (cases a) auto
next
  assume "v = hd a"
  with assms(2) show "searchsorted a v = 0"
    by (cases a) (auto simp: searchsorted_def)
qed

text \<open>\<open>ensure_zero\<close> keeps the table strictly sorted when nothing lies below the zero.\<close>

lemma strict_sorted_ensure_zero:
  assumes "sorted_wrt (<) u" and "\<forall>v\<in>set u. z \<le> (v::'a::linorder)"
  shows "sorted_wrt (<) (ensure_zero z u)"
  using assms by (cases u) (auto simp: ensure_zero_def)

lemma set_ensure_zero:
  assumes "sorted_wrt (<) u" and "\<forall>v\<in>set u. z \<le> (v::'a::linorder)" and "u \<noteq> []"
  shows "set (ensure_zero z u) = insert z (set u)"
  using assms by (cases u) (auto simp: ensure_zero_def)

lemma hd_ensure_zero: "hd (ensure_zero z u) = z"
  by (simp add: ensure_zero_def)

text \<open>
  A strictly sorted table of integers that starts at 0 and ends at its length minus one
  is the table 0, 1, 2, ...
\<close>

lemma strict_sorted_int_gap:
  fixes a :: "rat list"
  assumes "sorted_wrt (<) a" and "\<forall>v\<in>set a. v \<in> \<int>" and "j < length a"
  shows "i \<le> j \<Longrightarrow> a ! i + of_nat (j - i) \<le> a ! j"
  using assms(3)
proof (induction j)
  case 0
  then show ?case by simp
next
  case (Suc j)
  show ?case
  proof (cases "i = Suc j")
    case True
    then show ?thesis by simp
  next
    case False
    with Suc.prems have ij: "i \<le> j" and j: "j < length a" by simp_all
    from Suc.IH [OF ij j] have 1: "a ! i + of_nat (j - i) \<le> a ! j" .
    have lt: "a ! j < a ! Suc j"
      using assms(1) Suc.prems(2) by (simp add: sorted_wrt_nth_less)
    from assms(2) j Suc.prems(2) obtain p q where p: "a ! j = of_int p" and q: "a ! Suc j = of_int q"
      by (metis Ints_cases nth_mem)
    from lt p q have "p + 1 \<le> q" by simp
    then have "a ! j + 1 \<le> a ! Suc j"
      unfolding p q by (metis of_int_1 of_int_add of_int_le_iff)
    with 1 ij show ?thesis
      by (simp add: Suc_diff_le)
  qed
qed

lemma dense_table_nth:
  fixes a :: "rat list"
  assumes "sorted_wrt (<) a" and "\<forall>v\<in>set a. v \<in> \<int>" and "a \<noteq> []"
    and "hd a = 0" and "last a = of_nat (length a) - 1" and "i < length a"
  shows "a ! i = of_nat i"
proof -
  have n: "length a - 1 < length a" using assms(3) by simp
  have "a ! 0 + of_nat (i - 0) \<le> a ! i"
    by (rule strict_sorted_int_gap [OF assms(1,2,6)]) simp
  moreover have "a ! 0 = 0" using assms(3,4) by (simp add: hd_conv_nth)
  ultimately have lo: "of_nat i \<le> a ! i" by simp
  have "a ! i + of_nat (length a - 1 - i) \<le> a ! (length a - 1)"
    by (rule strict_sorted_int_gap [OF assms(1,2) n]) (use assms(6) in simp)
  moreover have "a ! (length a - 1) = of_nat (length a) - 1"
    using assms(3,5) by (simp add: last_conv_nth)
  ultimately have "a ! i + of_nat (length a - 1 - i) \<le> of_nat (length a) - 1" by simp
  moreover have "(of_nat (length a - 1 - i) :: rat) = of_nat (length a) - 1 - of_nat i"
    using assms(6) by (simp add: of_nat_diff)
  ultimately have "a ! i \<le> of_nat i" by simp
  with lo show ?thesis by simp
qed

section \<open>Conversion to the narrowed type\<close>

lemma dtype_astype [simp]: "dtype (astype im dt) = dt"
  and shape_astype [simp]: "shape (astype im dt) = shape im"
  and data_astype [simp]: "data (astype im dt) = map (cast dt) (data im)"
  by (simp_all add: astype_def)

lemma conv_type_Inr:
  assumes "conv_type im n = Inr (out, N)"
  shows "N = n" and "dtype out \<in> set unsigned_types"
    and "of_int n \<le> max_value (dtype out)" and "out = astype im (dtype out)"
proof -
  have le: "(of_int n \<le> (k :: rat)) = (n \<le> m)" if "k = of_int m" for k m
    using that by simp
  have "N = n \<and> dtype out \<in> set unsigned_types
      \<and> of_int n \<le> max_value (dtype out) \<and> out = astype im (dtype out)"
    using assms unfolding conv_type_cases
    by (auto simp: unsigned_types_def max_value_def le split: if_splits)
  then show "N = n" and "dtype out \<in> set unsigned_types"
    and "of_int n \<le> max_value (dtype out)" and "out = astype im (dtype out)"
    by simp_all
qed

lemma cast_unsigned_id:
  assumes "dt \<in> set unsigned_types" and "0 \<le> k" and "of_int k \<le> max_value dt"
  shows "cast dt (of_int k) = of_int k"
proof -
  have le: "(of_int k \<le> (r :: rat)) = (k \<le> m)" if "r = of_int m" for r m
    using that by simp
  have tr: "trunc (of_int k) = k"
    using assms(2) by (simp add: trunc_def)
  from assms(1) consider "dt = IM_BIT" | "dt = IM_BYTE" | "dt = IM_USHORT" | "dt = IM_UINT" | "dt = IM_ULONG"
    by (auto simp: unsigned_types_def)
  then show ?thesis
  proof cases
    case 1
    with assms(3) have "k \<le> 1" by (simp add: max_value_def)
    with assms(2) have "k = 0 \<or> k = 1" by arith
    with 1 show ?thesis by (auto simp: cast_def)
  next
    case 2
    with assms(3) have "k < 2 ^ 8" by (simp add: max_value_def le)
    with assms(2) 2 show ?thesis
      by (simp add: cast_def is_unsigned_def tr take_bit_int_eq_self)
  next
    case 3
    with assms(3) have "k < 2 ^ 16" by (simp add: max_value_def le)
    with assms(2) 3 show ?thesis
      by (simp add: cast_def is_unsigned_def tr take_bit_int_eq_self)
  next
    case 4
    with assms(3) have "k < 2 ^ 32" by (simp add: max_value_def le)
    with assms(2) 4 show ?thesis
      by (simp add: cast_def is_unsigned_def tr take_bit_int_eq_self)
  next
    case 5
    with assms(3) have "k < 2 ^ 64" by (simp add: max_value_def le)
    with assms(2) 5 show ?thesis
      by (simp add: cast_def is_unsigned_def tr take_bit_int_eq_self)
  qed
qed

section \<open>The plain branch of the Renumbering Engine\<close>

lemma conv_type_ranks:
  assumes sorted: "sorted_wrt (<) values" and sub: "set px \<subseteq> set values"
    and conv: "conv_type (searchsorted_array values px shp) (int (length values) - 1) = Inr (out, N)"
  shows "N = int (length values) - 1" and "dtype out \<in> set unsigned_types"
    and "of_int N \<le> max_value (dtype out)" and "shape out = shp"
    and "data out = map (\<lambda>v. of_nat (searchsorted values v)) px"
proof -
  note c = conv_type_Inr [OF conv]
  show "N = int (length values) - 1" and "dtype out \<in> set unsigned_types"
    using c(1,2) by simp_all
  show "of_int N \<le> max_value (dtype out)"
    using c(1,3) by simp
  show "shape out = shp"
    by (subst c(4)) (simp add: searchsorted_array_def)
  have "cast (dtype out) (of_nat (searchsorted values v)) = of_nat (searchsorted values v)"
    if "v \<in> set px" for v
  proof -
    from that sub have "v \<in> set values" by auto
    with searchsorted_member [OF sorted] have lt: "searchsorted values v < length values"
      by simp
    have "cast (dtype out) (of_int (int (searchsorted values v))) = of_int (int (searchsorted values v))"
    proof (rule cast_unsigned_id [OF c(2)])
      show "0 \<le> int (searchsorted values v)" by simp
      have "int (searchsorted values v) \<le> int (length values) - 1"
        using lt by simp
      then have "(of_int (int (searchsorted values v)) :: rat) \<le> of_int (int (length values) - 1)"
        by (simp only: of_int_le_iff)
      with c(3) show "of_int (int (searchsorted values v)) \<le> max_value (dtype out)"
        by simp
    qed
    then show ?thesis by simp
  qed
  then show "data out = map (\<lambda>v. of_nat (searchsorted values v)) px"
    by (subst c(4)) (simp add: searchsorted_array_def)
qed

lemma plain_not_rgb24: "is_image_besides_rgb24 im \<Longrightarrow> \<not> is_rgb24 im"
  by (auto simp: is_image_besides_rgb24_def is_rgb24_def integer_types_def)

lemma plain_values:
  fixes xs :: "rat list"
  assumes "xs \<noteq> []" and "\<forall>v\<in>set xs. 0 \<le> v"
  shows "sorted_wrt (<) (ensure_zero 0 (unique xs))"
    and "set (ensure_zero 0 (unique xs)) = insert 0 (set xs)"
    and "hd (ensure_zero 0 (unique xs)) = 0"
proof -
  have ne: "unique xs \<noteq> []" using assms(1) by (simp add: unique_eq_Nil)
  have ge: "\<forall>v\<in>set (unique xs). 0 \<le> v" using assms(2) by (simp add: set_unique)
  show "sorted_wrt (<) (ensure_zero 0 (unique xs))"
    by (rule strict_sorted_ensure_zero [OF strict_sorted_unique ge])
  show "set (ensure_zero 0 (unique xs)) = insert 0 (set xs)"
    using set_ensure_zero [OF strict_sorted_unique ge ne] by (simp add: set_unique)
  show "hd (ensure_zero 0 (unique xs)) = 0"
    by (rule hd_ensure_zero)
qed

lemma hd_unique_neg:
  fixes xs :: "rat list"
  assumes "xs \<noteq> []"
  shows "hd (unique xs) < 0 \<longleftrightarrow> (\<exists>v\<in>set xs. v < 0)"
proof
  assume "hd (unique xs) < 0"
  moreover from assms have "unique xs \<noteq> []" by (simp add: unique_eq_Nil)
  then have "hd (unique xs) \<in> set (unique xs)" by simp
  then have "hd (unique xs) \<in> set xs" by (simp add: set_unique)
  ultimately show "\<exists>v\<in>set xs. v < 0" by auto
next
  assume "\<exists>v\<in>set xs. v < 0"
  then obtain v where v: "v \<in> set xs" "v < 0" by auto
  then have "v \<in> set (unique xs)" by (simp add: set_unique)
  from hd_strict_sorted_le [OF strict_sorted_unique this] v(2)
  show "hd (unique xs) < 0" by simp
qed

lemma hd_unique_nonneg:
  fixes xs :: "rat list"
  assumes "xs \<noteq> []" and "\<forall>v\<in>set xs. 0 \<le> v"
  shows "\<not> hd (unique xs) < 0"
  using assms hd_unique_neg [of xs] by (auto simp: not_less)

text \<open>Arrays of an integer type hold integers; on them the fast path changes nothing.\<close>
lemma wf_integral:
  assumes "wf_ndarray im" and "is_image_besides_rgb24 im"
    and "dtype im \<noteq> IM_FLOAT" and "dtype im \<noteq> IM_DOUBLE"
  shows "\<forall>v\<in>set (data im). v \<in> \<int>"
  using assms by (auto simp: wf_ndarray_def is_image_besides_rgb24_def)

lemma fast_path_data:
  assumes wf: "wf_ndarray im" and plain: "is_image_besides_rgb24 im"
    and nf: "dtype im \<noteq> IM_FLOAT" "dtype im \<noteq> IM_DOUBLE"
    and ne: "data im \<noteq> []" and ge: "\<forall>v\<in>set (data im). 0 \<le> v"
    and dense: "last (ensure_zero 0 (unique (data im)))
                  = of_nat (length (ensure_zero 0 (unique (data im)))) - 1"
  shows "map (\<lambda>v. of_nat (searchsorted (ensure_zero 0 (unique (data im))) v)) (data im) = data im"
proof -
  let ?vals = "ensure_zero 0 (unique (data im))"
  note pv = plain_values [OF ne ge]
  have ints: "\<forall>v\<in>set ?vals. v \<in> \<int>"
    using wf_integral [OF wf plain nf] by (simp add: pv(2))
  have nonempty: "?vals \<noteq> []"
    using pv(2) by auto
  have "of_nat (searchsorted ?vals v) = v" if "v \<in> set (data im)" for v
  proof -
    from that have "v \<in> set ?vals" by (simp add: pv(2))
    from searchsorted_member [OF pv(1) this]
    have lt: "searchsorted ?vals v < length ?vals"
      and nth: "?vals ! searchsorted ?vals v = v" by simp_all
    from dense_table_nth [OF pv(1) ints nonempty pv(3) dense lt] nth
    show ?thesis by simp
  qed
  then show ?thesis by (simp add: map_idI)
qed

lemma cn_plain_rank_path:
  assumes wf: "wf_ndarray im" and plain: "is_image_besides_rgb24 im"
    and ne: "data im \<noteq> []" and ge: "\<forall>v\<in>set (data im). 0 \<le> v"
  shows "consecutively_number im = rank_path im"
proof (cases "dtype im \<noteq> IM_FLOAT \<and> dtype im \<noteq> IM_DOUBLE
    \<and> last (ensure_zero 0 (unique (data im))) = of_nat (length (ensure_zero 0 (unique (data im)))) - 1")
  case True
  then have "map (\<lambda>v. of_nat (searchsorted (ensure_zero 0 (unique (data im))) v)) (data im) = data im"
    using fast_path_data [OF wf plain _ _ ne ge] by simp
  then have eq: "astype (searchsorted_array (ensure_zero 0 (unique (data im))) (data im) (shape im)) dt
      = astype im dt" for dt
    by (simp add: astype_def searchsorted_array_def)
  have "conv_type (searchsorted_array (ensure_zero 0 (unique (data im))) (data im) (shape im)) n
      = conv_type im n" for n
    by (simp only: conv_type_cases eq)
  with True ne plain hd_unique_nonneg [OF ne ge] show ?thesis
    by (simp add: consecutively_number_def rank_path_def plain_not_rgb24 unique_eq_Nil Let_def)
next
  case False
  with ne plain hd_unique_nonneg [OF ne ge] show ?thesis
    by (auto simp: consecutively_number_def rank_path_def plain_not_rgb24 unique_eq_Nil Let_def)
qed

lemma cn_plain_empty:
  "is_image_besides_rgb24 im \<Longrightarrow> data im = [] \<Longrightarrow> consecutively_number im = Inl IndexError"
  by (simp add: consecutively_number_def plain_not_rgb24 unique_eq_Nil)

lemma cn_plain_negative:
  assumes "is_image_besides_rgb24 im" and "\<exists>v\<in>set (data im). v < 0"
  shows "consecutively_number im = Inl (ValueError ''negative numbers'')"
proof -
  from assms(2) have ne: "data im \<noteq> []" by auto
  with assms hd_unique_neg [OF ne] show ?thesis
    by (simp add: consecutively_number_def plain_not_rgb24 unique_eq_Nil)
qed

lemma cn_plain_Inr:
  assumes wf: "wf_ndarray im" and plain: "is_image_besides_rgb24 im"
    and cn: "consecutively_number im = Inr (out, N)"
  shows "data im \<noteq> []" and "\<forall>v\<in>set (data im). 0 \<le> v" and "rank_path im = Inr (out, N)"
proof -
  show ne: "data im \<noteq> []"
    using cn cn_plain_empty [OF plain] by auto
  show ge: "\<forall>v\<in>set (data im). 0 \<le> v"
  proof (rule ccontr)
    assume "\<not> (\<forall>v\<in>set (data im). 0 \<le> v)"
    then have "\<exists>v\<in>set (data im). v < 0" by (simp add: not_le)
    from cn_plain_negative [OF plain this] cn show False by simp
  qed
  show "rank_path im = Inr (out, N)"
    using cn cn_plain_rank_path [OF wf plain ne ge] by simp
qed

lemma rank_path_Inr:
  assumes ne: "data im \<noteq> []" and ge: "\<forall>v\<in>set (data im). 0 \<le> v"
    and rp: "rank_path im = Inr (out, N)"
  shows "N = int (length (ensure_zero 0 (unique (data im)))) - 1"
    and "dtype out \<in> set unsigned_types" and "of_int N \<le> max_value (dtype out)"
    and "shape out = shape im"
    and "data out = map (\<lambda>v. of_nat (searchsorted (ensure_zero 0 (unique (data im))) v)) (data im)"
proof -
  note pv = plain_values [OF ne ge]
  have sub: "set (data im) \<subseteq> set (ensure_zero 0 (unique (data im)))"
    by (auto simp: pv(2))
  from rp have conv: "conv_type (searchsorted_array (ensure_zero 0 (unique (data im))) (data im) (shape im))
      (int (length (ensure_zero 0 (unique (data im)))) - 1) = Inr (out, N)"
    by (simp add: rank_path_def Let_def)
  note r = conv_type_ranks [OF pv(1) sub conv]
  show "N = int (length (ensure_zero 0 (unique (data im)))) - 1"
    and "dtype out \<in> set unsigned_types" and "of_int N \<le> max_value (dtype out)"
    and "shape out = shape im"
    and "data out = map (\<lambda>v. of_nat (searchsorted (ensure_zero 0 (unique (data im))) v)) (data im)"
    by (rule r)+
qed

section \<open>The RGB branch of the Renumbering Engine\<close>

lemma triples_components:
  "(r, g, b) \<in> set (triples xs) \<Longrightarrow> r \<in> set xs \<and> g \<in> set xs \<and> b \<in> set xs"
  by (induction xs rule: triples.induct) auto

lemma rgb_data_nonneg:
  assumes wf: "wf_ndarray im" and rgb: "is_rgb24 im"
  shows "\<forall>v\<in>set (data im). 0 \<le> v"
proof (cases "dtype im = IM_RGB24_STRUCT")
  case True
  with wf show ?thesis by (simp add: wf_ndarray_def)
next
  case False
  with rgb have b: "dtype im = IM_BYTE" by (auto simp: is_rgb24_def)
  then have "dtype im \<in> set integer_types" by (simp add: integer_types_def)
  with wf have "\<forall>v\<in>set (data im). fst (the (min_max_values (dtype im))) \<le> v"
    by (simp add: wf_ndarray_def)
  then show ?thesis by (simp add: b)
qed

lemma rgb_nonneg:
  assumes wf: "wf_ndarray im" and rgb: "is_rgb24 im"
  shows "\<forall>p\<in>set (triples (data im)). (0, 0, 0) \<le> p"
proof
  fix p assume p: "p \<in> set (triples (data im))"
  obtain r g b where rgb3: "p = (r, g, b)" by (cases p) auto
  from triples_components [of r g b "data im"] p rgb3 rgb_data_nonneg [OF wf rgb]
  have "0 \<le> r" "0 \<le> g" "0 \<le> b" by auto
  then show "(0, 0, 0) \<le> p"
    unfolding rgb3 by auto
qed

lemma rgb_values:
  fixes px :: "(rat \<times> rat \<times> rat) list"
  assumes "px \<noteq> []" and "\<forall>p\<in>set px. (0, 0, 0) \<le> p"
  shows "sorted_wrt (<) (ensure_zero (0, 0, 0) (unique px))"
    and "set (ensure_zero (0, 0, 0) (unique px)) = insert (0, 0, 0) (set px)"
    and "hd (ensure_zero (0, 0, 0) (unique px)) = (0, 0, 0)"
proof -
  have ne: "unique px \<noteq> []" using assms(1) by (simp add: unique_eq_Nil)
  have ge: "\<forall>p\<in>set (unique px). (0, 0, 0) \<le> p" using assms(2) by (simp add: set_unique)
  show "sorted_wrt (<) (ensure_zero (0, 0, 0) (unique px))"
    by (rule strict_sorted_ensure_zero [OF strict_sorted_unique ge])
  show "set (ensure_zero (0, 0, 0) (unique px)) = insert (0, 0, 0) (set px)"
    using set_ensure_zero [OF strict_sorted_unique ge ne] by (simp add: set_unique)
  show "hd (ensure_zero (0, 0, 0) (unique px)) = (0, 0, 0)"
    by (rule hd_ensure_zero)
qed

lemma data_squeeze_view [simp]: "data (squeeze (view_rgb24_struct im)) = data im"
  by (simp add: squeeze_def view_rgb24_struct_def)

lemma cn_rgb_Inr:
  assumes wf: "wf_ndarray im" and rgb: "is_rgb24 im"
    and cn: "consecutively_number im = Inr (out, N)"
  shows "triples (data im) \<noteq> []"
    and "N = int (length (ensure_zero (0, 0, 0) (unique (triples (data im))))) - 1"
    and "dtype out \<in> set unsigned_types" and "of_int N \<le> max_value (dtype out)"
    and "data out = map (\<lambda>p. of_nat (searchsorted (ensure_zero (0, 0, 0) (unique (triples (data im)))) p))
                      (triples (data im))"
proof -
  show ne: "triples (data im) \<noteq> []"
  proof
    assume "triples (data im) = []"
    with rgb have "consecutively_number im = Inl IndexError"
      by (simp add: consecutively_number_def unique_eq_Nil)
    with cn show False by simp
  qed
  note rv = rgb_values [OF ne rgb_nonneg [OF wf rgb]]
  have sub: "set (triples (data im)) \<subseteq> set (ensure_zero (0, 0, 0) (unique (triples (data im))))"
    by (auto simp: rv(2))
  from cn rgb ne
  have conv: "conv_type (searchsorted_array (ensure_zero (0, 0, 0) (unique (triples (data im))))
        (triples (data im)) (shape (squeeze (view_rgb24_struct im))))
      (int (length (ensure_zero (0, 0, 0) (unique (triples (data im))))) - 1) = Inr (out, N)"
    by (simp add: consecutively_number_def unique_eq_Nil Let_def)
  note r = conv_type_ranks [OF rv(1) sub conv]
  show "N = int (length (ensure_zero (0, 0, 0) (unique (triples (data im))))) - 1"
    and "dtype out \<in> set unsigned_types" and "of_int N \<le> max_value (dtype out)"
    and "data out = map (\<lambda>p. of_nat (searchsorted (ensure_zero (0, 0, 0) (unique (triples (data im)))) p))
                      (triples (data im))"
    by (rule r)+
qed

section \<open>Which ranks occur\<close>

lemma ranks_image:
  fixes z :: "'a::linorder"
  assumes sorted: "sorted_wrt (<) values" and sv: "set values = insert z (set px)"
    and hd: "hd values = z"
  shows "searchsorted values ` set px = {i. (z \<in> set px \<or> 0 < i) \<and> i < length values}"
proof (rule set_eqI)
  fix i
  have ne: "values \<noteq> []" using sv by auto
  have z0: "values ! 0 = z" using hd ne by (simp add: hd_conv_nth)
  show "i \<in> searchsorted values ` set px \<longleftrightarrow> i \<in> {i. (z \<in> set px \<or> 0 < i) \<and> i < length values}"
  proof
    assume "i \<in> searchsorted values ` set px"
    then obtain v where v: "v \<in> set px" "i = searchsorted values v" by auto
    then have mem: "v \<in> set values" by (simp add: sv)
    note m = searchsorted_member [OF sorted mem]
    have "z \<in> set px \<or> 0 < i"
    proof (cases "i = 0")
      case True
      with v(2) m z0 have "v = z" by simp
      with v(1) show ?thesis by simp
    next
      case False
      then show ?thesis by simp
    qed
    with m v(2) show "i \<in> {i. (z \<in> set px \<or> 0 < i) \<and> i < length values}" by simp
  next
    assume "i \<in> {i. (z \<in> set px \<or> 0 < i) \<and> i < length values}"
    then have i: "z \<in> set px \<or> 0 < i" "i < length values" by simp_all
    have rank: "searchsorted values (values ! i) = i"
      by (rule searchsorted_nth [OF sorted i(2)])
    have "values ! i \<in> set px"
    proof (cases "values ! i = z")
      case True
      with rank have "searchsorted values z = i" by simp
      moreover have "searchsorted values z = 0"
        using searchsorted_nth [OF sorted, of 0] ne z0 by simp
      ultimately have "i = 0" by simp
      with i(1) True show ?thesis by simp
    next
      case False
      moreover have "values ! i \<in> set values" using i(2) by simp
      ultimately show ?thesis by (simp add: sv)
    qed
    with rank show "i \<in> searchsorted values ` set px" by force
  qed
qed

lemma of_nat_ranks_image:
  "(rat_of_nat ` {i. (b \<or> 0 < i) \<and> i < n}) = of_int ` (if b then {0..int n - 1} else {1..int n - 1})"
proof -
  have "{i. (b \<or> 0 < i) \<and> i < n} = (if b then {0..<n} else {1..<n})"
    by auto
  moreover have "rat_of_nat ` {a..<n} = of_int ` {int a..int n - 1}" for a
  proof -
    have "rat_of_nat ` {a..<n} = of_int ` (int ` {a..<n})"
      by (simp add: image_image)
    also have "int ` {a..<n} = {int a..int n - 1}"
      unfolding image_int_atLeastLessThan by auto
    finally show ?thesis .
  qed
  ultimately show ?thesis by simp
qed

lemma card_strict_sorted:
  "sorted_wrt (<) (values :: 'a::linorder list) \<Longrightarrow> length values = card (set values)"
  by (simp add: strict_sorted_iff distinct_card)

lemma ranks_zero:
  fixes z :: "'a::linorder"
  assumes sorted: "sorted_wrt (<) values" and sv: "set values = insert z (set px)"
    and hd: "hd values = z" and v: "v \<in> set px"
  shows "(searchsorted values v = 0) = (v = z)"
proof -
  from v have "v \<in> set values" by (simp add: sv)
  from searchsorted_zero_iff [OF sorted this] hd show ?thesis by simp
qed

section \<open>Results of the Renumbering Engine\<close>

lemma cn_not_image:
  "\<not> is_rgb24 im \<Longrightarrow> \<not> is_image_besides_rgb24 im \<Longrightarrow> consecutively_number im = Inl (ValueError ''im'')"
  by (simp add: consecutively_number_def)

lemma zero_pixels_plain: "\<not> is_rgb24 im \<Longrightarrow> zero_pixels im = map (\<lambda>v. v = 0) (data im)"
  and zero_pixels_rgb: "is_rgb24 im \<Longrightarrow> zero_pixels im = map (\<lambda>p. p = (0, 0, 0)) (triples (data im))"
  by (simp_all add: zero_pixels_def)

lemma True_in_map: "True \<in> set (map (\<lambda>v. v = z) xs) \<longleftrightarrow> z \<in> set xs"
  by auto

lemma conv_type_bit:
  assumes "conv_type im n = Inr (out, N)" and "N \<le> 1"
  shows "dtype out = IM_BIT"
proof -
  from conv_type_Inr(1) [OF assms(1)] assms(2) have "n \<le> 1" by simp
  with assms(1) show ?thesis by (auto simp: conv_type_cases)
qed

lemma cn_conv_type:
  assumes "consecutively_number im = Inr (out, N)"
  shows "\<exists>im' n. conv_type im' n = Inr (out, N)"
proof (cases "is_rgb24 im")
  case True
  with assms show ?thesis
    by (simp add: consecutively_number_def Let_def split: if_splits) blast
next
  case False
  with assms cn_not_image [OF False] have plain: "is_image_besides_rgb24 im" by auto
  with False assms show ?thesis
    by (simp add: consecutively_number_def Let_def split: if_splits) blast+
qed

lemma cn_bit:
  assumes "consecutively_number im = Inr (out, N)" and "N \<le> 1"
  shows "dtype out = IM_BIT"
  using cn_conv_type [OF assms(1)] conv_type_bit assms(2) by blast

lemma cn_value_count:
  assumes wf: "wf_ndarray im" and cn: "consecutively_number im = Inr (out, N)"
  shows "N = int (value_count im) - 1"
proof (cases "is_rgb24 im")
  case True
  note r = cn_rgb_Inr [OF wf True cn]
  note rv = rgb_values [OF r(1) rgb_nonneg [OF wf True]]
  from card_strict_sorted [OF rv(1)] r(2) True show ?thesis
    by (simp add: value_count_def rv(2))
next
  case False
  with cn cn_not_image [of im] have plain: "is_image_besides_rgb24 im" by auto
  note p = cn_plain_Inr [OF wf plain cn]
  note r = rank_path_Inr [OF p]
  note pv = plain_values [OF p(1,2)]
  from card_strict_sorted [OF pv(1)] r(1) False show ?thesis
    by (simp add: value_count_def pv(2))
qed


text \<open>
  A non-empty array whose values, with zero counted in, are 0, 1, ..., count - 1 has
  exactly that table of values.
\<close>

lemma dense_values:
  fixes xs :: "rat list"
  assumes ne: "xs \<noteq> []" and dense: "insert 0 (set xs) = rat_of_nat ` {..<count}"
  shows "ensure_zero 0 (unique xs) = map rat_of_nat [0..<count]"
proof -
  have ge: "\<forall>v\<in>set xs. 0 \<le> v"
  proof
    fix v assume "v \<in> set xs"
    then have "v \<in> rat_of_nat ` {..<count}" using dense by blast
    then show "0 \<le> v" by auto
  qed
  note pv = plain_values [OF ne ge]
  have 1: "sorted_wrt (<) (map rat_of_nat [0..<count])"
    by (simp add: sorted_wrt_map sorted_wrt_iff_nth_less)
  have 2: "set (map rat_of_nat [0..<count]) = set (ensure_zero 0 (unique xs))"
    using dense by (simp add: pv(2) lessThan_atLeast0)
  from pv(1) 1 2 show ?thesis
    by (intro sorted_distinct_set_unique) (simp_all add: strict_sorted_iff)
qed

lemma dense_fast_condition:
  fixes xs :: "rat list"
  assumes ne: "xs \<noteq> []" and dense: "insert 0 (set xs) = rat_of_nat ` {..<count}"
  shows "last (ensure_zero 0 (unique xs)) = of_nat (length (ensure_zero 0 (unique xs))) - 1"
proof -
  have "0 < count"
    using dense by (cases count) auto
  then show ?thesis
    by (simp add: dense_values [OF ne dense] last_map of_nat_diff)
qed

lemma dense_nonneg:
  fixes xs :: "rat list"
  assumes "insert 0 (set xs) = rat_of_nat ` {..<count}"
  shows "\<forall>v\<in>set xs. 0 \<le> v"
proof
  fix v assume "v \<in> set xs"
  then have "v \<in> rat_of_nat ` {..<count}" using assms by blast
  then show "0 \<le> v" by auto
qed

section \<open>The relabelling loop\<close>

lemma relabel_loop_visited:
  "relabel_loop label is st vis = Inr (st', vis') \<Longrightarrow> vis' = vis @ is"
proof (induction "is" arbitrary: st vis)
  case Nil
  then show ?case by simp
next
  case (Cons i "is")
  from Cons.prems obtain st1 where "relabel_body label i st = Inr st1"
    and "relabel_loop label is st1 (vis @ [i]) = Inr (st', vis')"
    by (auto split: sum.splits)
  from Cons.IH [OF this(2)] show ?case by simp
qed

lemma relabel_body_single:
  assumes "snd (label (eq_mask im (of_int i))) = 1" and "of_int N \<le> mx"
  shows "relabel_body label i (im, N, mx) = Inr (im, N, mx)"
proof -
  obtain l where l: "label (eq_mask im (of_int i)) = (l, 1)"
    using assms(1) by (cases "label (eq_mask im (of_int i))") auto
  from assms(2) have "\<not> mx < of_int N" by simp
  then show ?thesis
    by (simp add: relabel_body_def l)
qed

lemma relabel_loop_single:
  assumes "\<forall>i\<in>set is. snd (label (eq_mask im (of_int i))) = 1" and "of_int N \<le> mx"
  shows "relabel_loop label is (im, N, mx) vis = Inr ((im, N, mx), vis @ is)"
  using assms(1)
proof (induction "is" arbitrary: vis)
  case Nil
  then show ?case by simp
next
  case (Cons i "is")
  from Cons.prems have "snd (label (eq_mask im (of_int i))) = 1" by simp
  from relabel_body_single [where label = label and im = im and i = i, OF this assms(2)] Cons.IH [of "vis @ [i]"] Cons.prems
  show ?case by simp
qed

lemma get_min_max_unsigned:
  assumes "dtype im \<in> set unsigned_types"
  shows "get_min_max im = Inr (0, max_value (dtype im))"
  using assms
  by (auto simp: unsigned_types_def get_min_max_def get_min_max_dtype_def max_value_def)

text \<open>
  The mask of a rank in the renumbered image is the mask of the value of that rank in
  the original image.
\<close>

lemma eq_mask_rank:
  assumes sorted: "sorted_wrt (<) values" and sv: "set values = insert 0 (set xs)"
    and hd: "hd values = 0" and i: "1 \<le> i" "i \<le> int (length values) - 1"
    and shp: "shape out = shape im" and xs: "data im = xs"
    and out: "data out = map (\<lambda>v. of_nat (searchsorted values v)) xs"
  shows "eq_mask out (of_int i) = eq_mask im (values ! nat i)"
    and "values ! nat i \<in> set xs" and "values ! nat i \<noteq> 0"
proof -
  have lt: "nat i < length values" using i by simp
  have ne: "values \<noteq> []" using sv by auto
  have rank: "searchsorted values (values ! nat i) = nat i"
    by (rule searchsorted_nth [OF sorted lt])
  have "searchsorted values 0 = 0"
    using searchsorted_nth [OF sorted, of 0] ne hd by (simp add: hd_conv_nth)
  with rank i(1) show nz: "values ! nat i \<noteq> 0" by auto
  have "values ! nat i \<in> set values" using lt by simp
  with nz show "values ! nat i \<in> set xs" by (simp add: sv)
  have "(rat_of_nat (searchsorted values v) = of_int i) = (v = values ! nat i)"
    if "v \<in> set xs" for v
  proof -
    from that have "v \<in> set values" by (simp add: sv)
    note m = searchsorted_member [OF sorted this]
    have "(rat_of_nat (searchsorted values v) = of_int i) = (int (searchsorted values v) = i)"
      by (metis of_int_eq_iff of_int_of_nat_eq)
    also have "\<dots> = (searchsorted values v = nat i)" using i(1) by auto
    also have "\<dots> = (v = values ! nat i)" using m rank by auto
    finally show ?thesis .
  qed
  then show "eq_mask out (of_int i) = eq_mask im (values ! nat i)"
    by (simp add: eq_mask_def shp xs out)
qed

lemma relabel_Inl:
  "consecutively_number im = Inl e \<Longrightarrow> relabel label im = Inl e"
  by (simp add: relabel_def relabel_trace_def)

lemma relabel_single:
  assumes wf: "wf_ndarray im" and plain: "is_image_besides_rgb24 im"
    and single: "\<forall>v\<in>set (data im). v \<noteq> 0 \<longrightarrow> snd (label (eq_mask im v)) = 1"
    and cn: "consecutively_number im = Inr (out, N)"
  shows "relabel_trace label im = Inr ((out, N), [1..N])"
proof -
  let ?vals = "ensure_zero 0 (unique (data im))"
  note p = cn_plain_Inr [OF wf plain cn]
  note r = rank_path_Inr [OF p]
  note pv = plain_values [OF p(1,2)]
  have one: "\<forall>i\<in>set [1..N]. snd (label (eq_mask out (of_int i))) = 1"
  proof
    fix i assume "i \<in> set [1..N]"
    then have i: "1 \<le> i" "i \<le> int (length ?vals) - 1" using r(1) by simp_all
    note m = eq_mask_rank [OF pv i r(4) refl r(5)]
    from single m(2,3) have "snd (label (eq_mask im (?vals ! nat i))) = 1" by blast
    then show "snd (label (eq_mask out (of_int i))) = 1" by (simp only: m(1))
  qed
  from relabel_loop_single [where label = label and im = out and vis = "[]", OF one r(3)] cn get_min_max_unsigned [OF r(2)]
  show ?thesis
    by (simp add: relabel_trace_def)
qed

section \<open>Views and the argument checks of histeq\<close>

lemma view_same [simp]: "view im (dtype im) = im"
proof -
  have "reinterpret (dtype im) (dtype im) = (\<lambda>v. v)"
    by (rule ext) (simp add: reinterpret_def)
  then show ?thesis by (simp add: view_def)
qed

lemma signed2unsigned_Some:
  assumes "signed2unsigned dt = Some u"
  shows "u \<in> set integer_types" and "signed2unsigned u = None" and "is_unsigned u"
    and "bits u = bits dt" and "u \<noteq> dt"
  using assms by (cases dt; simp add: integer_types_def is_unsigned_def)+

lemma plain_view:
  assumes "is_image_besides_rgb24 im" and "signed2unsigned (dtype im) = Some u"
  shows "is_image_besides_rgb24 (view im u)"
  using assms(1) signed2unsigned_Some(1) [OF assms(2)]
  by (simp add: is_image_besides_rgb24_def ndim_def view_def)

lemma histeq_apply_view:
  assumes "signed2unsigned (dtype im) = Some u"
  shows "histeq_apply kern im nbins hgram
    = map_sum id (\<lambda>r. view r (dtype im)) (histeq_apply kern (view im u) nbins hgram)"
proof -
  have d: "dtype (view im u) = u" and s: "shape (view im u) = shape im"
    by (simp_all add: view_def)
  have v: "view \<lparr>dtype = u, shape = shape im, data = t\<rparr> u = \<lparr>dtype = u, shape = shape im, data = t\<rparr>" for t
    using view_same [of "\<lparr>dtype = u, shape = shape im, data = t\<rparr>"] by simp
  show ?thesis
    by (cases "kern (view im u) nbins hgram")
      (simp_all add: histeq_apply_def assms d s v signed2unsigned_Some(2) [OF assms])
qed

lemma histeq_apply_dtype:
  "histeq_apply kern im nbins hgram = Inr r \<Longrightarrow> dtype r = dtype im"
  by (auto simp: histeq_apply_def view_def Let_def split: sum.splits)

section \<open>The claims of the specification\<close>

text \<open>
  Claim C1, as stated: the distinct values of the output of \<open>consecutively_number\<close> are
  exactly 0, 1, ..., N, also when 0 does not occur in the input. That fails on the
  one-row byte image 5, 7: the table of values is 0, 5, 7 with the zero inserted, the
  pixels get the ranks 1 and 2, N is 2, and no pixel of the output is 0.
\<close>

theorem consecutively_number_gap_counterexample:
  "consecutively_number \<lparr>dtype = IM_BYTE, shape = [1, 2], data = [5, 7]\<rparr>
     = Inr (\<lparr>dtype = IM_BYTE, shape = [1, 2], data = [1, 2]\<rparr>, 2)
   \<and> set (data \<lparr>dtype = IM_BYTE, shape = [1, 2], data = [1, 2]\<rparr>) \<noteq> of_int ` {0..2}"
proof -
  have "(0::rat) \<in> of_int ` {0..(2::int)}" by simp
  moreover have "(0::rat) \<notin> set [1, 2]" by simp
  ultimately have "set [1, 2] \<noteq> rat_of_int ` {0..2}" by metis
  moreover have "(2::rat) < 2 ^ 8 - 1" by simp
  ultimately show ?thesis
    by (simp add: consecutively_number_def is_rgb24_def ndim_def is_image_besides_rgb24_def
      integer_types_def unique_def ensure_zero_def conv_type_cases searchsorted_array_def
      searchsorted_def astype_def cast_def is_unsigned_def trunc_def)
qed

text \<open>
  Claim C1, amended: for every well-formed image that \<open>consecutively_number\<close> accepts,
  the distinct values of the output are exactly 0, 1, ..., N when the input has a zero
  pixel (the triple (0,0,0) for RGB), and exactly 1, ..., N when it has none; N is the
  returned max label. Zero is kept for the input's zero and no other value takes it.
\<close>

theorem consecutively_number_values:
  assumes wf: "wf_ndarray im" and cn: "consecutively_number im = Inr (out, N)"
  shows "set (data out) = of_int ` (if True \<in> set (zero_pixels im) then {0..N} else {1..N})"
proof (cases "is_rgb24 im")
  case True
  let ?px = "triples (data im)"
  let ?vals = "ensure_zero (0, 0, 0) (unique ?px)"
  note r = cn_rgb_Inr [OF wf True cn]
  note rv = rgb_values [OF r(1) rgb_nonneg [OF wf True]]
  have "set (data out) = rat_of_nat ` (searchsorted ?vals ` set ?px)"
    by (simp add: r(5) image_image)
  also have "\<dots> = rat_of_nat ` {i. ((0, 0, 0) \<in> set ?px \<or> 0 < i) \<and> i < length ?vals}"
    by (simp only: ranks_image [OF rv])
  also have "\<dots> = of_int ` (if (0, 0, 0) \<in> set ?px then {0..N} else {1..N})"
    by (simp only: of_nat_ranks_image r(2))
  finally show ?thesis
    by (simp only: zero_pixels_rgb [OF True] True_in_map)
next
  case False
  with cn cn_not_image [of im] have plain: "is_image_besides_rgb24 im" by auto
  let ?vals = "ensure_zero 0 (unique (data im))"
  note p = cn_plain_Inr [OF wf plain cn]
  note r = rank_path_Inr [OF p]
  note pv = plain_values [OF p(1,2)]
  have "set (data out) = rat_of_nat ` (searchsorted ?vals ` set (data im))"
    by (simp add: r(5) image_image)
  also have "\<dots> = rat_of_nat ` {i. (0 \<in> set (data im) \<or> 0 < i) \<and> i < length ?vals}"
    by (simp only: ranks_image [OF pv])
  also have "\<dots> = of_int ` (if 0 \<in> set (data im) then {0..N} else {1..N})"
    by (simp only: of_nat_ranks_image r(1))
  finally show ?thesis
    by (simp only: zero_pixels_plain [OF False] True_in_map)
qed

text \<open>Claim C1 at a concrete input.\<close>

theorem consecutively_number_values_witness:
  "wf_ndarray \<lparr>dtype = IM_BYTE, shape = [1, 3], data = [5, 0, 7]\<rparr>
   \<and> consecutively_number \<lparr>dtype = IM_BYTE, shape = [1, 3], data = [5, 0, 7]\<rparr>
       = Inr (\<lparr>dtype = IM_BYTE, shape = [1, 3], data = [1, 0, 2]\<rparr>, 2)
   \<and> set (data \<lparr>dtype = IM_BYTE, shape = [1, 3], data = [1, 0, 2]\<rparr>) = of_int ` {0..2}"
proof -
  have wf: "wf_ndarray \<lparr>dtype = IM_BYTE, shape = [1, 3], data = [5, 0, 7]\<rparr>"
    by (simp add: wf_ndarray_def integer_types_def)
  have lt: "(2::rat) < 2 ^ 8 - 1" by simp
  have cn: "consecutively_number \<lparr>dtype = IM_BYTE, shape = [1, 3], data = [5, 0, 7]\<rparr>
       = Inr (\<lparr>dtype = IM_BYTE, shape = [1, 3], data = [1, 0, 2]\<rparr>, 2)"
    using lt
    by (simp add: consecutively_number_def is_rgb24_def ndim_def is_image_besides_rgb24_def
      integer_types_def unique_def ensure_zero_def conv_type_cases searchsorted_array_def
      searchsorted_def astype_def cast_def is_unsigned_def trunc_def)
  from consecutively_number_values [OF wf cn]
  have "set (data \<lparr>dtype = IM_BYTE, shape = [1, 3], data = [1, 0, 2]\<rparr>) = of_int ` {0..2}"
    by (simp add: zero_pixels_def is_rgb24_def ndim_def)
  with wf cn show ?thesis by simp
qed

text \<open>
  Claim C3: for every well-formed image that \<open>consecutively_number\<close> accepts, the
  output has one value per pixel of the input, and a pixel of the output is 0 exactly
  when that pixel of the input is 0 (the triple (0,0,0) for an RGB image).
\<close>

theorem consecutively_number_zero:
  assumes wf: "wf_ndarray im" and cn: "consecutively_number im = Inr (out, N)"
  shows "map (\<lambda>v. v = 0) (data out) = zero_pixels im"
proof (cases "is_rgb24 im")
  case True
  note r = cn_rgb_Inr [OF wf True cn]
  note rv = rgb_values [OF r(1) rgb_nonneg [OF wf True]]
  show ?thesis
    by (simp add: r(5) zero_pixels_rgb [OF True] ranks_zero [OF rv])
next
  case False
  with cn cn_not_image [of im] have plain: "is_image_besides_rgb24 im" by auto
  note p = cn_plain_Inr [OF wf plain cn]
  note r = rank_path_Inr [OF p]
  note pv = plain_values [OF p(1,2)]
  show ?thesis
    by (simp add: r(5) zero_pixels_plain [OF False] ranks_zero [OF pv])
qed


text \<open>Claim C3 at a concrete input, an RGB image of two pixels.\<close>

theorem consecutively_number_zero_witness:
  "wf_ndarray \<lparr>dtype = IM_BYTE, shape = [1, 2, 3], data = [5, 0, 7, 0, 0, 0]\<rparr>
   \<and> consecutively_number \<lparr>dtype = IM_BYTE, shape = [1, 2, 3], data = [5, 0, 7, 0, 0, 0]\<rparr>
       = Inr (\<lparr>dtype = IM_BIT, shape = [2], data = [1, 0]\<rparr>, 1)
   \<and> zero_pixels \<lparr>dtype = IM_BYTE, shape = [1, 2, 3], data = [5, 0, 7, 0, 0, 0]\<rparr> = [False, True]
   \<and> map (\<lambda>v. v = 0) (data \<lparr>dtype = IM_BIT, shape = [2], data = [1, 0]\<rparr>) = [False, True]"
proof -
  let ?im = "\<lparr>dtype = IM_BYTE, shape = [1, 2, 3], data = [5, 0, 7, 0, 0, 0]\<rparr>"
  have wf: "wf_ndarray ?im"
    by (simp add: wf_ndarray_def integer_types_def)
  have rgb: "is_rgb24 ?im"
    by (simp add: is_rgb24_def ndim_def)
  have cn: "consecutively_number ?im = Inr (\<lparr>dtype = IM_BIT, shape = [2], data = [1, 0]\<rparr>, 1)"
    using rgb
    by (simp add: consecutively_number_def squeeze_def view_rgb24_struct_def
      unique_def ensure_zero_def conv_type_cases searchsorted_array_def
      searchsorted_def astype_def cast_def)
  have zp: "zero_pixels ?im = [False, True]"
    using rgb by (simp add: zero_pixels_def)
  from consecutively_number_zero [OF wf cn] wf cn zp show ?thesis by simp
qed

text \<open>
  Claim C10: the returned max label N is the number of distinct values of the input,
  zero counted in, minus one; when there are at most two such values (N is at most 1)
  the returned array has the boolean element type, the first type of the enumeration
  used for narrowing, and so is not of an unsigned integer type.
\<close>

theorem narrowing_to_boolean:
  assumes wf: "wf_ndarray im" and cn: "consecutively_number im = Inr (out, N)"
  shows "N = int (value_count im) - 1
    \<and> (value_count im \<le> 2 \<longrightarrow> dtype out = IM_BIT \<and> \<not> is_unsigned (dtype out))"
proof -
  have N: "N = int (value_count im) - 1"
    by (rule cn_value_count [OF wf cn])
  have "dtype out = IM_BIT \<and> \<not> is_unsigned (dtype out)" if "value_count im \<le> 2"
  proof -
    from that N have "N \<le> 1" by simp
    from cn_bit [OF cn this] show ?thesis by (simp add: is_unsigned_def)
  qed
  with N show ?thesis by blast
qed

text \<open>Claim C10 at a concrete input.\<close>

theorem narrowing_to_boolean_witness:
  "wf_ndarray \<lparr>dtype = IM_USHORT, shape = [2, 2], data = [300, 300, 0, 300]\<rparr>
   \<and> consecutively_number \<lparr>dtype = IM_USHORT, shape = [2, 2], data = [300, 300, 0, 300]\<rparr>
       = Inr (\<lparr>dtype = IM_BIT, shape = [2, 2], data = [1, 1, 0, 1]\<rparr>, 1)
   \<and> value_count \<lparr>dtype = IM_USHORT, shape = [2, 2], data = [300, 300, 0, 300]\<rparr> \<le> 2
   \<and> dtype \<lparr>dtype = IM_BIT, shape = [2, 2], data = [1, 1, 0, 1]\<rparr> = IM_BIT
   \<and> \<not> is_unsigned (dtype \<lparr>dtype = IM_BIT, shape = [2, 2], data = [1, 1, 0, 1]\<rparr>)"
proof -
  have wf: "wf_ndarray \<lparr>dtype = IM_USHORT, shape = [2, 2], data = [300, 300, 0, 300]\<rparr>"
    by (simp add: wf_ndarray_def integer_types_def)
  have cn: "consecutively_number \<lparr>dtype = IM_USHORT, shape = [2, 2], data = [300, 300, 0, 300]\<rparr>
       = Inr (\<lparr>dtype = IM_BIT, shape = [2, 2], data = [1, 1, 0, 1]\<rparr>, 1)"
    by (simp add: consecutively_number_def is_rgb24_def ndim_def is_image_besides_rgb24_def
      integer_types_def unique_def ensure_zero_def conv_type_cases searchsorted_array_def
      searchsorted_def astype_def cast_def)
  have vc: "value_count \<lparr>dtype = IM_USHORT, shape = [2, 2], data = [300, 300, 0, 300]\<rparr> \<le> 2"
    by (simp add: value_count_def is_rgb24_def ndim_def card_insert_if)
  from narrowing_to_boolean [OF wf cn] vc wf cn show ?thesis by simp
qed

text \<open>
  Claim C6: for a well-formed plain image of a non-float type whose distinct values,
  zero counted in, are exactly 0, 1, ..., count - 1, \<open>consecutively_number\<close> takes the
  fast path, and the fast path returns the same pair of renumbered image and max label
  as the rank-lookup path.
\<close>

theorem fast_path_is_rank_path:
  assumes wf: "wf_ndarray im" and plain: "is_image_besides_rgb24 im"
    and nf: "dtype im \<noteq> IM_FLOAT" "dtype im \<noteq> IM_DOUBLE"
    and ne: "data im \<noteq> []"
    and dense: "insert 0 (set (data im)) = rat_of_nat ` {..<count}"
  shows "consecutively_number im = fast_path im \<and> fast_path im = rank_path im"
proof -
  note ge = dense_nonneg [OF dense]
  note c = dense_fast_condition [OF ne dense]
  from plain nf ne c hd_unique_nonneg [OF ne ge]
  have "consecutively_number im = fast_path im"
    by (simp add: consecutively_number_def fast_path_def plain_not_rgb24 unique_eq_Nil Let_def)
  with cn_plain_rank_path [OF wf plain ne ge] show ?thesis by simp
qed

text \<open>Claim C6 at a concrete input.\<close>

theorem fast_path_is_rank_path_witness:
  "wf_ndarray \<lparr>dtype = IM_LONG, shape = [2, 2], data = [2, 1, 1, 3]\<rparr>
   \<and> is_image_besides_rgb24 \<lparr>dtype = IM_LONG, shape = [2, 2], data = [2, 1, 1, 3]\<rparr>
   \<and> insert 0 (set (data \<lparr>dtype = IM_LONG, shape = [2, 2], data = [2, 1, 1, 3]\<rparr>)) = rat_of_nat ` {..<4}
   \<and> consecutively_number \<lparr>dtype = IM_LONG, shape = [2, 2], data = [2, 1, 1, 3]\<rparr>
       = fast_path \<lparr>dtype = IM_LONG, shape = [2, 2], data = [2, 1, 1, 3]\<rparr>
   \<and> fast_path \<lparr>dtype = IM_LONG, shape = [2, 2], data = [2, 1, 1, 3]\<rparr>
       = rank_path \<lparr>dtype = IM_LONG, shape = [2, 2], data = [2, 1, 1, 3]\<rparr>"
proof -
  let ?im = "\<lparr>dtype = IM_LONG, shape = [2, 2], data = [2, 1, 1, 3]\<rparr>"
  have wf: "wf_ndarray ?im"
    by (simp add: wf_ndarray_def integer_types_def)
  have plain: "is_image_besides_rgb24 ?im"
    by (simp add: is_image_besides_rgb24_def ndim_def integer_types_def)
  have "{..<4::nat} = {0, 1, 2, 3}" by auto
  then have dense: "insert 0 (set (data ?im)) = rat_of_nat ` {..<4}"
    by auto
  from fast_path_is_rank_path [OF wf plain _ _ _ dense] wf plain dense show ?thesis
    by simp
qed

text \<open>
  Claim C9: a plain image (which is never an RGB image) that holds a negative value
  makes \<open>consecutively_number\<close> raise the error for negative numbers; no image is
  returned.
\<close>

theorem negative_values_rejected:
  assumes "is_image_besides_rgb24 im" and "\<exists>v\<in>set (data im). v < 0"
  shows "\<not> is_rgb24 im \<and> consecutively_number im = Inl (ValueError ''negative numbers'')"
  using assms by (simp add: cn_plain_negative plain_not_rgb24)

text \<open>Claim C9 at a concrete input.\<close>

theorem negative_values_rejected_witness:
  "is_image_besides_rgb24 \<lparr>dtype = IM_SHORT, shape = [1, 3], data = [4, - 1, 0]\<rparr>
   \<and> - 1 \<in> set (data \<lparr>dtype = IM_SHORT, shape = [1, 3], data = [4, - 1, 0]\<rparr>)
   \<and> consecutively_number \<lparr>dtype = IM_SHORT, shape = [1, 3], data = [4, - 1, 0]\<rparr>
       = Inl (ValueError ''negative numbers'')"
proof -
  let ?im = "\<lparr>dtype = IM_SHORT, shape = [1, 3], data = [4, - 1, 0]\<rparr>"
  have plain: "is_image_besides_rgb24 ?im"
    by (simp add: is_image_besides_rgb24_def ndim_def integer_types_def)
  have neg: "\<exists>v\<in>set (data ?im). v < 0" by simp
  from negative_values_rejected [OF plain neg] plain show ?thesis by simp
qed

text \<open>
  Claim C5: when some type of the enumeration \<open>_unsigned_types\<close> can hold \<open>n\<close>,
  \<open>_conv_type\<close> converts the array to a type of the enumeration that holds \<open>n\<close> and
  is the smallest such type, by maximum value and by size; when none can, it raises
  \<open>OverflowError\<close>. The enumeration is in ascending order of maximum value and of size.
\<close>

theorem conv_type_smallest:
  "((\<exists>dt\<in>set unsigned_types. of_int n \<le> max_value dt) \<longrightarrow>
      (\<exists>dt\<in>set unsigned_types.
         conv_type im n = Inr (astype im dt, n) \<and> of_int n \<le> max_value dt
         \<and> (\<forall>dt'\<in>set unsigned_types. of_int n \<le> max_value dt' \<longrightarrow>
               max_value dt \<le> max_value dt' \<and> itemsize dt \<le> itemsize dt')))
   \<and> (\<not> (\<exists>dt\<in>set unsigned_types. of_int n \<le> max_value dt) \<longrightarrow>
        conv_type im n = Inl OverflowError)
   \<and> sorted_wrt (<) (map max_value unsigned_types)
   \<and> sorted (map itemsize unsigned_types)"
proof -
  have le: "(of_int n \<le> (k :: rat)) = (n \<le> m)" if "k = of_int m" for k m
    using that by simp
  have mv: "max_value IM_BIT = 1" "max_value IM_BYTE = of_int (2 ^ 8 - 1)"
    "max_value IM_USHORT = of_int (2 ^ 16 - 1)" "max_value IM_UINT = of_int (2 ^ 32 - 1)"
    "max_value IM_ULONG = of_int (2 ^ 64 - 1)"
    by (simp_all add: max_value_def)
  have sz: "itemsize IM_BIT = 1" "itemsize IM_BYTE = 1" "itemsize IM_USHORT = 2"
    "itemsize IM_UINT = 4" "itemsize IM_ULONG = 8"
    by (simp_all add: itemsize_def)
  have set: "set unsigned_types = {IM_BIT, IM_BYTE, IM_USHORT, IM_UINT, IM_ULONG}"
    by (simp add: unsigned_types_def)
  consider "n \<le> 1" | "1 < n" "n \<le> 2 ^ 8 - 1" | "2 ^ 8 - 1 < n" "n \<le> 2 ^ 16 - 1"
    | "2 ^ 16 - 1 < n" "n \<le> 2 ^ 32 - 1" | "2 ^ 32 - 1 < n" "n \<le> 2 ^ 64 - 1" | "2 ^ 64 - 1 < n"
    by linarith
  then have "((\<exists>dt\<in>set unsigned_types. of_int n \<le> max_value dt) \<longrightarrow>
      (\<exists>dt\<in>set unsigned_types.
         conv_type im n = Inr (astype im dt, n) \<and> of_int n \<le> max_value dt
         \<and> (\<forall>dt'\<in>set unsigned_types. of_int n \<le> max_value dt' \<longrightarrow>
               max_value dt \<le> max_value dt' \<and> itemsize dt \<le> itemsize dt')))
   \<and> (\<not> (\<exists>dt\<in>set unsigned_types. of_int n \<le> max_value dt) \<longrightarrow>
        conv_type im n = Inl OverflowError)"
    unfolding set conv_type_cases
    by cases (simp_all add: mv sz)
  moreover have "sorted_wrt (<) (map max_value unsigned_types)"
    by (simp add: unsigned_types_def max_value_def)
  moreover have "sorted (map itemsize unsigned_types)"
    by (simp add: unsigned_types_def itemsize_def)
  ultimately show ?thesis by simp
qed

text \<open>Claim C5 at a concrete input.\<close>

theorem conv_type_smallest_witness:
  "IM_USHORT \<in> set unsigned_types \<and> of_int 300 \<le> max_value IM_USHORT
   \<and> conv_type \<lparr>dtype = IM_LONG, shape = [1, 1], data = [300]\<rparr> 300
       = Inr (\<lparr>dtype = IM_USHORT, shape = [1, 1], data = [300]\<rparr>, 300)
   \<and> conv_type \<lparr>dtype = IM_LONG, shape = [1, 1], data = [300]\<rparr> (2 ^ 64)
       = Inl OverflowError"
proof -
  let ?im = "\<lparr>dtype = IM_LONG, shape = [1, 1], data = [300]\<rparr>"
  have in_set: "IM_USHORT \<in> set unsigned_types"
    by (simp add: unsigned_types_def)
  have fits: "of_int 300 \<le> max_value IM_USHORT"
    by (simp add: max_value_def)
  have big: "\<not> (\<exists>dt\<in>set unsigned_types. of_int (2 ^ 64) \<le> max_value dt)"
    by (simp add: unsigned_types_def max_value_def)
  from in_set fits have ex: "\<exists>dt\<in>set unsigned_types. of_int 300 \<le> max_value dt"
    by blast
  from conv_type_smallest [of 300 ?im] ex
  obtain dt where dt: "dt \<in> set unsigned_types" "conv_type ?im 300 = Inr (astype ?im dt, 300)"
    "of_int 300 \<le> max_value dt"
    "\<forall>dt'\<in>set unsigned_types. of_int 300 \<le> max_value dt' \<longrightarrow> max_value dt \<le> max_value dt'"
    by blast
  from dt(4) in_set fits have "max_value dt \<le> max_value IM_USHORT" by blast
  with dt(1,3) have "dt = IM_USHORT"
    by (auto simp: unsigned_types_def max_value_def)
  with dt(2) have 1: "conv_type ?im 300 = Inr (\<lparr>dtype = IM_USHORT, shape = [1, 1], data = [300]\<rparr>, 300)"
    by (simp add: astype_def cast_def is_unsigned_def trunc_def)
  from conv_type_smallest [of "2 ^ 64" ?im] big
  have 2: "conv_type ?im (2 ^ 64) = Inl OverflowError" by blast
  from in_set fits 1 2 show ?thesis by simp
qed

text \<open>
  Claim C2, as stated: the loop of \<open>relabel\<close> visits every label up to the final,
  grown value of N exactly once. That fails on the one-row byte image 5, 0, 5: it is
  renumbered to 1, 0, 1 with N = 1, label 1 has two components, the second becomes
  label 2 and N becomes 2, and the loop ends having visited label 1 only.
\<close>

theorem relabel_bound_counterexample:
  "relabel_trace label_row \<lparr>dtype = IM_BYTE, shape = [1, 3], data = [5, 0, 5]\<rparr>
     = Inr ((\<lparr>dtype = IM_BYTE, shape = [1, 3], data = [1, 0, 2]\<rparr>, 2), [1])
   \<and> count_list [1 :: int] 2 \<noteq> 1"
proof -
  have cn: "consecutively_number \<lparr>dtype = IM_BYTE, shape = [1, 3], data = [5, 0, 5]\<rparr>
      = Inr (\<lparr>dtype = IM_BIT, shape = [1, 3], data = [1, 0, 1]\<rparr>, 1)"
    by (simp add: consecutively_number_def is_rgb24_def ndim_def is_image_besides_rgb24_def
      integer_types_def unique_def ensure_zero_def conv_type_cases searchsorted_array_def
      searchsorted_def astype_def cast_def)
  have lab: "label_row (eq_mask \<lparr>dtype = IM_BIT, shape = [1, 3], data = [1, 0, 1]\<rparr> 1)
      = (\<lparr>dtype = IM_INT, shape = [1, 3], data = [1, 0, 2]\<rparr>, 2)"
    by (simp add: label_row_def eq_mask_def)
  have body: "relabel_body label_row 1 (\<lparr>dtype = IM_BIT, shape = [1, 3], data = [1, 0, 1]\<rparr>, 1, 1)
      = Inr (\<lparr>dtype = IM_BYTE, shape = [1, 3], data = [1, 0, 2]\<rparr>, 2, 2 ^ 8 - 1)"
    using lab
    by (simp add: relabel_body_def conv_type_cases astype_def cast_def is_unsigned_def
      trunc_def get_min_max_def get_min_max_dtype_def assign_where_def)
  from cn body show ?thesis
    by (simp add: relabel_trace_def get_min_max_def get_min_max_dtype_def)
qed

text \<open>
  Claim C2, amended: when \<open>relabel\<close> returns, its loop has visited exactly the labels
  from 1 to the max label that \<open>consecutively_number\<close> returned, each once and in
  ascending order. The bound is fixed when the loop starts; labels created by splitting
  during the loop are not visited.
\<close>

theorem relabel_visits_initial_labels:
  assumes "relabel_trace label im = Inr ((out, N), visited)"
  shows "\<exists>im0 N0. consecutively_number im = Inr (im0, N0) \<and> visited = [1..N0]"
proof -
  from assms obtain im0 N0 mn mx st where cn: "consecutively_number im = Inr (im0, N0)"
    and "relabel_loop label [1..N0] (im0, N0, mx) [] = Inr (st, visited)"
    by (auto simp: relabel_trace_def split: sum.splits prod.splits)
  from relabel_loop_visited [OF this(2)] cn show ?thesis by simp
qed

text \<open>Claim C2 at a concrete input.\<close>

theorem relabel_visits_initial_labels_witness:
  "relabel_trace label_row \<lparr>dtype = IM_BYTE, shape = [1, 3], data = [5, 0, 5]\<rparr>
     = Inr ((\<lparr>dtype = IM_BYTE, shape = [1, 3], data = [1, 0, 2]\<rparr>, 2), [1])
   \<and> consecutively_number \<lparr>dtype = IM_BYTE, shape = [1, 3], data = [5, 0, 5]\<rparr>
     = Inr (\<lparr>dtype = IM_BIT, shape = [1, 3], data = [1, 0, 1]\<rparr>, 1)
   \<and> [1 :: int] = [1..1]"
proof -
  have cn: "consecutively_number \<lparr>dtype = IM_BYTE, shape = [1, 3], data = [5, 0, 5]\<rparr>
      = Inr (\<lparr>dtype = IM_BIT, shape = [1, 3], data = [1, 0, 1]\<rparr>, 1)"
    by (simp add: consecutively_number_def is_rgb24_def ndim_def is_image_besides_rgb24_def
      integer_types_def unique_def ensure_zero_def conv_type_cases searchsorted_array_def
      searchsorted_def astype_def cast_def)
  have lab: "label_row (eq_mask \<lparr>dtype = IM_BIT, shape = [1, 3], data = [1, 0, 1]\<rparr> 1)
      = (\<lparr>dtype = IM_INT, shape = [1, 3], data = [1, 0, 2]\<rparr>, 2)"
    by (simp add: label_row_def eq_mask_def)
  have body: "relabel_body label_row 1 (\<lparr>dtype = IM_BIT, shape = [1, 3], data = [1, 0, 1]\<rparr>, 1, 1)
      = Inr (\<lparr>dtype = IM_BYTE, shape = [1, 3], data = [1, 0, 2]\<rparr>, 2, 2 ^ 8 - 1)"
    using lab
    by (simp add: relabel_body_def conv_type_cases astype_def cast_def is_unsigned_def
      trunc_def get_min_max_def get_min_max_dtype_def assign_where_def)
  from cn body have tr: "relabel_trace label_row \<lparr>dtype = IM_BYTE, shape = [1, 3], data = [5, 0, 5]\<rparr>
     = Inr ((\<lparr>dtype = IM_BYTE, shape = [1, 3], data = [1, 0, 2]\<rparr>, 2), [1])"
    by (simp add: relabel_trace_def get_min_max_def get_min_max_dtype_def)
  from relabel_visits_initial_labels [OF tr] cn tr show ?thesis by simp
qed

text \<open>
  Claim C4: for a well-formed plain image in which the connected-components primitive
  finds exactly one component in the mask of every non-zero value, \<open>relabel\<close> returns
  what \<open>consecutively_number\<close> returns on the same input: the same image, pixel for
  pixel, and the same max label (and the same error when the input is rejected).
\<close>

theorem relabel_stable:
  assumes wf: "wf_ndarray im" and plain: "is_image_besides_rgb24 im"
    and single: "\<forall>v\<in>set (data im). v \<noteq> 0 \<longrightarrow> snd (label (eq_mask im v)) = 1"
  shows "relabel label im = consecutively_number im"
proof (cases "consecutively_number im")
  case (Inl e)
  then show ?thesis by (simp add: relabel_Inl)
next
  case (Inr r)
  obtain out N where r: "r = (out, N)" by (cases r) auto
  from relabel_single [OF wf plain single Inr [unfolded r]] Inr r show ?thesis
    by (simp add: relabel_def)
qed

text \<open>Claim C4 at a concrete input.\<close>

theorem relabel_stable_witness:
  "wf_ndarray \<lparr>dtype = IM_BYTE, shape = [1, 4], data = [5, 5, 0, 7]\<rparr>
   \<and> is_image_besides_rgb24 \<lparr>dtype = IM_BYTE, shape = [1, 4], data = [5, 5, 0, 7]\<rparr>
   \<and> snd (label_row (eq_mask \<lparr>dtype = IM_BYTE, shape = [1, 4], data = [5, 5, 0, 7]\<rparr> 5)) = 1
   \<and> snd (label_row (eq_mask \<lparr>dtype = IM_BYTE, shape = [1, 4], data = [5, 5, 0, 7]\<rparr> 7)) = 1
   \<and> relabel label_row \<lparr>dtype = IM_BYTE, shape = [1, 4], data = [5, 5, 0, 7]\<rparr>
       = Inr (\<lparr>dtype = IM_BYTE, shape = [1, 4], data = [1, 1, 0, 2]\<rparr>, 2)"
proof -
  let ?im = "\<lparr>dtype = IM_BYTE, shape = [1, 4], data = [5, 5, 0, 7]\<rparr>"
  have wf: "wf_ndarray ?im"
    by (simp add: wf_ndarray_def integer_types_def)
  have plain: "is_image_besides_rgb24 ?im"
    by (simp add: is_image_besides_rgb24_def ndim_def integer_types_def)
  have l5: "snd (label_row (eq_mask ?im 5)) = 1" and l7: "snd (label_row (eq_mask ?im 7)) = 1"
    by (simp_all add: label_row_def eq_mask_def)
  then have single: "\<forall>v\<in>set (data ?im). v \<noteq> 0 \<longrightarrow> snd (label_row (eq_mask ?im v)) = 1"
    by simp
  have lt: "(2::rat) < 2 ^ 8 - 1" by simp
  have cn: "consecutively_number ?im = Inr (\<lparr>dtype = IM_BYTE, shape = [1, 4], data = [1, 1, 0, 2]\<rparr>, 2)"
    using lt
    by (simp add: consecutively_number_def is_rgb24_def ndim_def is_image_besides_rgb24_def
      integer_types_def unique_def ensure_zero_def conv_type_cases searchsorted_array_def
      searchsorted_def astype_def cast_def is_unsigned_def trunc_def)
  from relabel_stable [where label = label_row, OF wf plain single] cn wf plain l5 l7
  show ?thesis by simp
qed

text \<open>
  Claim C7: for a plain image of a signed integer type with an unsigned counterpart,
  \<open>histeq\<close> is \<open>histeq\<close> of the image viewed as the unsigned counterpart, with the
  result viewed back as the signed type: the histograms are computed from the array
  whose element type is the unsigned counterpart and whose elements are the low bits
  of the signed elements read as unsigned numbers, and a returned array has the
  element type of the input.
\<close>

theorem histeq_signed_view:
  assumes plain: "is_image_besides_rgb24 im" and su: "signed2unsigned (dtype im) = Some u"
  shows "histeq kern im nbins hgram
           = map_sum id (\<lambda>r. view r (dtype im)) (histeq kern (view im u) nbins hgram)
    \<and> dtype (view im u) = u
    \<and> data (view im u) = map (\<lambda>v. of_int (take_bit (bits (dtype im)) \<lfloor>v\<rfloor>)) (data im)
    \<and> (\<forall>r. histeq kern im nbins hgram = Inr r \<longrightarrow> dtype r = dtype im)"
proof -
  note s = signed2unsigned_Some [OF su]
  have 1: "histeq kern im nbins hgram
      = map_sum id (\<lambda>r. view r (dtype im)) (histeq kern (view im u) nbins hgram)"
    using plain plain_view [OF plain su]
    by (simp add: histeq_def histeq_apply_view [OF su] split: option.splits)
  have 2: "dtype (view im u) = u"
    by (simp add: view_def)
  have 3: "data (view im u) = map (\<lambda>v. of_int (take_bit (bits (dtype im)) \<lfloor>v\<rfloor>)) (data im)"
    using s(3,4,5) by (simp add: view_def reinterpret_def)
  have 4: "dtype r = dtype im" if "histeq kern im nbins hgram = Inr r" for r
    using that histeq_apply_dtype [of kern im _ _ r]
    by (auto simp: histeq_def split: if_splits option.splits)
  from 1 2 3 4 show ?thesis by blast
qed

text \<open>Claim C7 at a concrete input.\<close>

theorem histeq_signed_view_witness:
  "is_image_besides_rgb24 \<lparr>dtype = IM_SBYTE, shape = [1, 2], data = [- 2, 3]\<rparr>
   \<and> signed2unsigned (dtype \<lparr>dtype = IM_SBYTE, shape = [1, 2], data = [- 2, 3]\<rparr>) = Some IM_BYTE
   \<and> view \<lparr>dtype = IM_SBYTE, shape = [1, 2], data = [- 2, 3]\<rparr> IM_BYTE
       = \<lparr>dtype = IM_BYTE, shape = [1, 2], data = [254, 3]\<rparr>
   \<and> histeq (\<lambda>im nbins hgram. Inr (data im)) \<lparr>dtype = IM_SBYTE, shape = [1, 2], data = [- 2, 3]\<rparr> None None
       = Inr \<lparr>dtype = IM_SBYTE, shape = [1, 2], data = [- 2, 3]\<rparr>"
proof -
  let ?im = "\<lparr>dtype = IM_SBYTE, shape = [1, 2], data = [- 2, 3]\<rparr>"
  let ?k = "\<lambda>(im :: ndarray) (nbins :: int) (hgram :: ndarray option). (Inr (data im) :: error + rat list)"
  have plain: "is_image_besides_rgb24 ?im"
    by (simp add: is_image_besides_rgb24_def ndim_def integer_types_def)
  have su: "signed2unsigned (dtype ?im) = Some IM_BYTE" by simp
  have tb: "take_bit 8 (- 2 :: int) = 254" "take_bit 8 (3 :: int) = 3"
    by (simp_all add: take_bit_eq_mod)
  have stb: "signed_take_bit 7 (254 :: int) = - 2" "signed_take_bit 7 (3 :: int) = 3"
    by (simp_all add: signed_take_bit_eq_take_bit_shift take_bit_eq_mod)
  have v: "view ?im IM_BYTE = \<lparr>dtype = IM_BYTE, shape = [1, 2], data = [254, 3]\<rparr>"
    by (simp add: view_def reinterpret_def is_unsigned_def tb)
  have un: "histeq ?k \<lparr>dtype = IM_BYTE, shape = [1, 2], data = [254, 3]\<rparr> None None
      = Inr \<lparr>dtype = IM_BYTE, shape = [1, 2], data = [254, 3]\<rparr>"
    by (simp add: histeq_def histeq_apply_def is_image_besides_rgb24_def ndim_def
      integer_types_def view_def reinterpret_def)
  have vb: "view \<lparr>dtype = IM_BYTE, shape = [1, 2], data = [254, 3]\<rparr> IM_SBYTE = ?im"
    by (simp add: view_def reinterpret_def is_unsigned_def is_signed_def stb)
  from histeq_signed_view [where kern = ?k and nbins = None and hgram = None, OF plain su]
  have "histeq ?k ?im None None
      = map_sum id (\<lambda>r. view r (dtype ?im)) (histeq ?k (view ?im IM_BYTE) None None)"
    by blast
  with v un vb have "histeq ?k ?im None None = Inr ?im" by simp
  with plain su v show ?thesis by simp
qed



end
